theory Spec2Isabelle
  imports Main "HOL-Library.Word"
begin

section \<open>The alert-button firmware (Firmware\_files/src/main.cpp)\<close>

text \<open>
  The firmware is one translation unit of global variables and void functions that talk to
  the ESP32 peripherals. The embedding passes the globals and the hardware as one record
  \<open>sys\<close>, every function taking the state and returning the new one (with what the C
  function returns first, where it returns something).

  What the peripherals answer is not decided by the program. It is given by a \<open>world\<close>:
  for each library call that reads the outside, the answer to its \<open>n\<close>-th call. The state
  counts the calls made so far, so a theorem for every \<open>world\<close> covers every behaviour of the
  radio, the network, the pins and the web client.

  \<open>millis()\<close> is the field \<open>clock\<close>, an \<open>unsigned long\<close> of 32 bits that wraps. Inside
  the program it advances by \<open>delay\<close> only; between two calls of \<open>loop\<close> it is advanced by
  \<open>idle\<close>. Effects on the outside are appended to \<open>trace\<close> in program order. Diagnostic
  output on \<open>Serial\<close> is left out, except the line that announces a button press.
\<close>

subsection \<open>Data\<close>

datatype level = LOW | HIGH

datatype wl_status =
    WL_NO_SHIELD | WL_IDLE_STATUS | WL_NO_SSID_AVAIL | WL_SCAN_COMPLETED
  | WL_CONNECTED | WL_CONNECT_FAILED | WL_CONNECTION_LOST | WL_DISCONNECTED

text \<open>\<open>struct Config\<close>: three \<open>char[32]\<close> arrays, held as the list of their bytes, and a flag.\<close>

record Config =
  ssid :: string
  password :: string
  deviceName :: string
  configured :: bool

text \<open>
  What \<open>server.handleClient()\<close> finds: nothing, a request for the page, a request for an
  unknown path, or the form posted to \<open>/save\<close>.
\<close>

datatype web_request = NoRequest | GetPage | GetOther | PostSave string string string

datatype event =
    DigitalWrite level
  | EepromPut Config
  | EepromCommit
  | Delay nat
  | UdpBroadcast string
  | HttpPost string string int
  | WifiDisconnect
  | WifiBegin string string
  | WifiReconnect
  | WifiSoftAP string
  | DnsStart
  | WebServerBegin
  | WebSend int
  | Restart
  | AlertButtonPressed

record world =
  wifiStatus :: "nat \<Rightarrow> wl_status"
  udpRx :: "nat \<Rightarrow> string"
  httpResponse :: "nat \<Rightarrow> string \<Rightarrow> string \<Rightarrow> int"
  buttonPin :: "nat \<Rightarrow> level"
  bootPin :: "nat \<Rightarrow> level"
  webClient :: "nat \<Rightarrow> web_request"

record sys =
  config :: Config
  alertState :: bool
  lastDebounceTime :: "32 word"
  buttonPressStartTime :: "32 word"
  resetTriggered :: bool
  serverConnected :: bool
  isBlinking :: bool
  lastBlinkTime :: "32 word"
  ledState :: bool
  lastServerCheckTime :: "32 word"
  clock :: "32 word"
  ledPin :: level
  eepromBuf :: Config
  eepromFlash :: Config
  portalActive :: bool
  halted :: bool
  trace :: "event list"
  wifiPolls :: nat
  udpPolls :: nat
  httpCalls :: nat
  buttonReads :: nat
  bootReads :: nat
  webPolls :: nat

subsection \<open>Constants\<close>

definition UDP_REQUEST :: string where
  "UDP_REQUEST = ''WHERE_IS_SERVER''"

definition debounceDelay :: "32 word" where
  "debounceDelay = 500"

definition blinkInterval :: "32 word" where
  "blinkInterval = 300"

definition serverBlinkInterval :: "32 word" where
  "serverBlinkInterval = 1000"

definition serverCheckInterval :: "32 word" where
  "serverCheckInterval = 10000"

subsection \<open>C strings\<close>

definition NUL :: char where
  "NUL = CHR 0x00"

text \<open>
  \<open>String(buf)\<close>: the bytes before the first terminator. For an array without one the
  model takes the whole array, where the C code reads on past its end.
\<close>

definition String_of :: "string \<Rightarrow> string" where
  "String_of buf = takeWhile (\<lambda>c. c \<noteq> NUL) buf"

text \<open>\<open>strncpy(dst, src, n)\<close> into an array of \<open>n\<close> bytes: the string, then terminators up to \<open>n\<close>.\<close>

definition strncpy :: "nat \<Rightarrow> string \<Rightarrow> string" where
  "strncpy n src = take n (String_of src @ replicate n NUL)"

text \<open>\<open>Config blank = {0}\<close>.\<close>

definition blank :: Config where
  "blank = \<lparr>ssid = replicate 32 NUL, password = replicate 32 NUL,
            deviceName = replicate 32 NUL, configured = False\<rparr>"

subsection \<open>Library calls\<close>

definition millis :: "sys \<Rightarrow> 32 word" where
  "millis s = clock s"

definition delay :: "nat \<Rightarrow> sys \<Rightarrow> sys" where
  "delay n s = s\<lparr>clock := clock s + of_nat n, trace := trace s @ [Delay n]\<rparr>"

definition emit :: "event \<Rightarrow> sys \<Rightarrow> sys" where
  "emit e s = s\<lparr>trace := trace s @ [e]\<rparr>"

definition level_of :: "bool \<Rightarrow> level" where
  "level_of b = (if b then HIGH else LOW)"

definition digitalWrite_led :: "level \<Rightarrow> sys \<Rightarrow> sys" where
  "digitalWrite_led v s = s\<lparr>ledPin := v, trace := trace s @ [DigitalWrite v]\<rparr>"

definition digitalRead_button :: "world \<Rightarrow> sys \<Rightarrow> level \<times> sys" where
  "digitalRead_button w s = (buttonPin w (buttonReads s), s\<lparr>buttonReads := Suc (buttonReads s)\<rparr>)"

definition digitalRead_boot :: "world \<Rightarrow> sys \<Rightarrow> level \<times> sys" where
  "digitalRead_boot w s = (bootPin w (bootReads s), s\<lparr>bootReads := Suc (bootReads s)\<rparr>)"

definition WiFi_status :: "world \<Rightarrow> sys \<Rightarrow> wl_status \<times> sys" where
  "WiFi_status w s = (wifiStatus w (wifiPolls s), s\<lparr>wifiPolls := Suc (wifiPolls s)\<rparr>)"

text \<open>
  \<open>udp.parsePacket()\<close> with the \<open>udp.read\<close> that follows it: the payload of the datagram,
  empty when \<open>parsePacket\<close> returns 0.
\<close>

definition udp_parsePacket :: "world \<Rightarrow> sys \<Rightarrow> string \<times> sys" where
  "udp_parsePacket w s = (udpRx w (udpPolls s), s\<lparr>udpPolls := Suc (udpPolls s)\<rparr>)"

definition EEPROM_put :: "Config \<Rightarrow> sys \<Rightarrow> sys" where
  "EEPROM_put c s = s\<lparr>eepromBuf := c, trace := trace s @ [EepromPut c]\<rparr>"

definition EEPROM_commit :: "sys \<Rightarrow> sys" where
  "EEPROM_commit s = s\<lparr>eepromFlash := eepromBuf s, trace := trace s @ [EepromCommit]\<rparr>"

text \<open>\<open>ESP.restart()\<close> does not return: nothing of the program runs after it.\<close>

definition ESP_restart :: "sys \<Rightarrow> sys" where
  "ESP_restart s = s\<lparr>halted := True, trace := trace s @ [Restart]\<rparr>"

definition http_POST :: "world \<Rightarrow> string \<Rightarrow> string \<Rightarrow> sys \<Rightarrow> int \<times> sys" where
  "http_POST w url body s =
     (let code = httpResponse w (httpCalls s) url body
      in (code, s\<lparr>httpCalls := Suc (httpCalls s), trace := trace s @ [HttpPost url body code]\<rparr>))"

subsection \<open>Discovery\<close>

text \<open>The \<open>while (millis() - start < 1000)\<close> of one attempt: the reply, if one came in the window.\<close>

function discoverWait :: "world \<Rightarrow> 32 word \<Rightarrow> sys \<Rightarrow> string option \<times> sys" where
  "discoverWait w start s =
     (if millis s - start < 1000 then
        (let (pkt, s1) = udp_parsePacket w s in
         if pkt \<noteq> [] then (Some (String_of (take 15 pkt)), s1)
         else discoverWait w start (delay 50 s1))
      else (None, s))"
  by pat_completeness auto
termination
proof (relation "measure (\<lambda>(w, start, s). 1000 - unat (clock s - start))", goal_cases)
  case 1
  show ?case by simp
next
  case (2 w start s x xa y)
  from 2 have lt: "unat (clock s - start) < 1000"
    by (simp add: millis_def word_less_nat_alt)
  from 2 have y: "clock (delay 50 y) = clock s + 50"
    by (auto simp: udp_parsePacket_def delay_def)
  have e: "clock s + 50 - start = (clock s - start) + 50"
    by simp
  have "unat ((clock s - start) + 50) = unat (clock s - start) + 50"
    using lt by (simp add: unat_word_ariths)
  then have "unat (clock (delay 50 y) - start) = unat (clock s - start) + 50"
    by (simp only: y e)
  then show ?case using lt by simp
qed

text \<open>The \<open>for (int attempt = 0; attempt < 3; attempt++)\<close>.\<close>

function discoverAttempts :: "world \<Rightarrow> nat \<Rightarrow> sys \<Rightarrow> string \<times> sys" where
  "discoverAttempts w attempt s =
     (if attempt < 3 then
        (let s1 = emit (UdpBroadcast UDP_REQUEST) s;
             start = millis s1;
             (r, s2) = discoverWait w start s1
         in case r of
              Some ip \<Rightarrow> (ip, s2)
            | None \<Rightarrow> discoverAttempts w (attempt + 1) s2)
      else ([], s))"
  by pat_completeness auto
termination
  by (relation "measure (\<lambda>(w, attempt, s). 3 - attempt)") auto

definition improvedDiscoverServer :: "world \<Rightarrow> sys \<Rightarrow> string \<times> sys" where
  "improvedDiscoverServer w s = discoverAttempts w 0 s"

definition discoverServer :: "world \<Rightarrow> sys \<Rightarrow> string \<times> sys" where
  "discoverServer w s = improvedDiscoverServer w s"

subsection \<open>Indicator\<close>

definition blinkLED :: "bool \<Rightarrow> 32 word \<Rightarrow> sys \<Rightarrow> sys" where
  "blinkLED stop interval s =
     (if stop then
        (let s1 = s\<lparr>isBlinking := False\<rparr>;
             s2 = s1\<lparr>ledState := alertState s1\<rparr>
         in digitalWrite_led (level_of (alertState s2)) s2)
      else
        (let actualInterval = (if interval > 0 then interval else blinkInterval) in
         if isBlinking s \<and> millis s - lastBlinkTime s > actualInterval then
           (let s1 = s\<lparr>lastBlinkTime := millis s\<rparr>;
                s2 = s1\<lparr>ledState := \<not> ledState s1\<rparr>
            in digitalWrite_led (level_of (ledState s2)) s2)
         else s))"

subsection \<open>Factory reset and provisioning portal\<close>

definition triggerReset :: "sys \<Rightarrow> sys" where
  "triggerReset s =
     (let s1 = digitalWrite_led HIGH s;
          s2 = EEPROM_put blank s1;
          s3 = EEPROM_commit s2;
          s4 = delay 1000 s3;
          s5 = digitalWrite_led LOW s4;
          s6 = s5\<lparr>resetTriggered := True\<rparr>
      in ESP_restart s6)"

definition improvedCaptivePortal :: "sys \<Rightarrow> sys" where
  "improvedCaptivePortal s =
     (let s1 = emit (WifiSoftAP ''EMERGENCY ALERT SETUP'') s;
          s2 = emit DnsStart s1;
          s3 = emit WebServerBegin s2
      in s3\<lparr>portalActive := True\<rparr>)"

definition startCaptivePortal :: "sys \<Rightarrow> sys" where
  "startCaptivePortal s = improvedCaptivePortal s"

definition handleRoot :: "sys \<Rightarrow> sys" where
  "handleRoot s = emit (WebSend 200) s"

definition handleSave :: "string \<Rightarrow> string \<Rightarrow> string \<Rightarrow> sys \<Rightarrow> sys" where
  "handleSave arg_ssid arg_password arg_deviceName s =
     (let s1 = s\<lparr>config := (config s)\<lparr>ssid := strncpy 32 arg_ssid\<rparr>\<rparr>;
          s2 = s1\<lparr>config := (config s1)\<lparr>password := strncpy 32 arg_password\<rparr>\<rparr>;
          s3 = s2\<lparr>config := (config s2)\<lparr>deviceName := strncpy 32 arg_deviceName\<rparr>\<rparr>;
          s4 = s3\<lparr>config := (config s3)\<lparr>configured := True\<rparr>\<rparr>;
          s5 = EEPROM_put (config s4) s4;
          s6 = EEPROM_commit s5;
          s7 = emit (WebSend 200) s6;
          s8 = delay 2000 s7
      in ESP_restart s8)"

text \<open>
  \<open>server.handleClient()\<close>: serves one pending request through the handlers that
  \<open>improvedCaptivePortal\<close> registered; a server that was never begun serves nothing.
\<close>

definition server_handleClient :: "world \<Rightarrow> sys \<Rightarrow> sys" where
  "server_handleClient w s =
     (if portalActive s then
        (let s1 = s\<lparr>webPolls := Suc (webPolls s)\<rparr> in
         case webClient w (webPolls s) of
           NoRequest \<Rightarrow> s1
         | GetPage \<Rightarrow> handleRoot s1
         | GetOther \<Rightarrow> emit (WebSend 302) s1
         | PostSave a b c \<Rightarrow> handleSave a b c s1)
      else s)"

subsection \<open>WiFi association\<close>

text \<open>\<open>printNetworkInfo\<close> reads \<open>WiFi.status()\<close> twice (the \<open>switch\<close> and the \<open>if\<close>) and prints.\<close>

definition printNetworkInfo :: "world \<Rightarrow> sys \<Rightarrow> sys" where
  "printNetworkInfo w s =
     (let (st1, s1) = WiFi_status w s;
          (st2, s2) = WiFi_status w s1
      in s2)"

text \<open>
  \<open>while (WiFi.status() != WL_CONNECTED && attempts < limit) { delay(500); attempts++; }\<close>
  with \<open>limit\<close> 5 in \<open>reconnectWiFi\<close> and 20 in \<open>enhancedWiFiConnect\<close>.
\<close>

function waitForWiFi :: "world \<Rightarrow> nat \<Rightarrow> nat \<Rightarrow> sys \<Rightarrow> sys" where
  "waitForWiFi w limit attempts s =
     (let (st, s1) = WiFi_status w s in
      if st \<noteq> WL_CONNECTED \<and> attempts < limit
      then waitForWiFi w limit (attempts + 1) (delay 500 s1)
      else s1)"
  by pat_completeness auto
termination
  by (relation "measure (\<lambda>(w, limit, attempts, s). limit - attempts)") auto

definition reconnectWiFi :: "world \<Rightarrow> sys \<Rightarrow> bool \<times> sys" where
  "reconnectWiFi w s =
     (let s1 = s\<lparr>isBlinking := True\<rparr>;
          s2 = emit WifiReconnect s1;
          s3 = waitForWiFi w 5 0 s2;
          (st, s4) = WiFi_status w s3
      in if st = WL_CONNECTED then
           (let s5 = printNetworkInfo w s4;
                (serverIP, s6) = discoverServer w s5
            in if serverIP = [] then
                 (let s7 = s6\<lparr>serverConnected := False\<rparr>;
                      s8 = s7\<lparr>isBlinking := True\<rparr>
                  in (True, s8))
               else
                 (let s7 = s6\<lparr>serverConnected := True\<rparr>
                  in (True, blinkLED True 0 s7)))
         else (False, s4\<lparr>serverConnected := False\<rparr>))"

definition enhancedWiFiConnect :: "world \<Rightarrow> sys \<Rightarrow> bool \<times> sys" where
  "enhancedWiFiConnect w s =
     (let s1 = emit WifiDisconnect s;
          s2 = delay 100 s1;
          s3 = emit (WifiBegin (String_of (ssid (config s2))) (String_of (password (config s2)))) s2;
          s4 = waitForWiFi w 20 0 s3;
          (st, s5) = WiFi_status w s4
      in if st = WL_CONNECTED then
           (let s6 = printNetworkInfo w s5;
                (serverIP, s7) = discoverServer w s6
            in if serverIP = [] then
                 (let s8 = s7\<lparr>serverConnected := False\<rparr>;
                      s9 = s8\<lparr>isBlinking := True\<rparr>
                  in (True, s9))
               else
                 (let s8 = s7\<lparr>serverConnected := True\<rparr>
                  in (True, blinkLED True 0 s8)))
         else
           (let s6 = s5\<lparr>config := (config s5)\<lparr>configured := False\<rparr>\<rparr>;
                s7 = EEPROM_put (config s6) s6;
                s8 = EEPROM_commit s7;
                s9 = s8\<lparr>serverConnected := False\<rparr>
            in (False, startCaptivePortal s9)))"

definition connectToWiFi :: "world \<Rightarrow> sys \<Rightarrow> sys" where
  "connectToWiFi w s = snd (enhancedWiFiConnect w s)"

subsection \<open>Alert toggle\<close>

text \<open>
  \<open>sendAlert(bool state)\<close>. The parameter is used for the diagnostic line only. The three
  early exits of the source are the three branches that do not reach \<open>http_POST\<close>.
\<close>

definition sendAlert :: "world \<Rightarrow> bool \<Rightarrow> sys \<Rightarrow> sys" where
  "sendAlert w state s =
     (let (st, s1) = WiFi_status w s;
          (ok, s2) = (if st \<noteq> WL_CONNECTED then reconnectWiFi w s1 else (True, s1))
      in if \<not> ok then
           (let s3 = s2\<lparr>alertState := \<not> alertState s2\<rparr>;
                s4 = s3\<lparr>ledState := alertState s3\<rparr>
            in digitalWrite_led (level_of (alertState s4)) s4)
         else
           (let (serverIP, s3) = discoverServer w s2
            in if serverIP = [] then
                 (let s4 = s3\<lparr>serverConnected := False\<rparr>;
                      s5 = s4\<lparr>isBlinking := True\<rparr>
                  in s5\<lparr>alertState := \<not> alertState s5\<rparr>)
               else
                 (let s4 = s3\<lparr>serverConnected := True\<rparr>;
                      url = ''http://'' @ serverIP @ '':5000/alert'';
                      postData = ''name='' @ String_of (deviceName (config s4));
                      (httpCode, s5) = http_POST w url postData s4
                  in if httpCode > 0 then s5
                     else
                       (let s6 = s5\<lparr>alertState := \<not> alertState s5\<rparr>;
                            s7 = s6\<lparr>ledState := alertState s6\<rparr>
                        in digitalWrite_led (level_of (alertState s7)) s7))))"

definition toggleAlertState :: "world \<Rightarrow> sys \<Rightarrow> sys" where
  "toggleAlertState w s =
     (let s1 = s\<lparr>alertState := \<not> alertState s\<rparr>;
          s2 = s1\<lparr>ledState := alertState s1\<rparr>;
          s3 = digitalWrite_led (level_of (alertState s2)) s2
      in sendAlert w (alertState s3) s3)"

subsection \<open>The scheduling loop\<close>

text \<open>
  \<open>loop()\<close> is cut at its four comments into four functions, run in the order of the
  source. Lines 100 to 105:
\<close>

definition loopIndicator :: "world \<Rightarrow> sys \<Rightarrow> sys" where
  "loopIndicator w s =
     (if isBlinking s then
        (if \<not> configured (config s) then blinkLED False blinkInterval s
         else
           (let (st, s1) = WiFi_status w s;
                currentInterval =
                  (if st = WL_CONNECTED \<and> \<not> serverConnected s1
                   then serverBlinkInterval else blinkInterval)
            in blinkLED False currentInterval s1))
      else s)"

text \<open>Lines 108 to 117, the boot button:\<close>

definition loopResetCheck :: "world \<Rightarrow> sys \<Rightarrow> sys" where
  "loopResetCheck w s =
     (let (lvl, s1) = digitalRead_boot w s in
      if lvl = LOW \<and> \<not> resetTriggered s1 then
        (if buttonPressStartTime s1 = 0 then s1\<lparr>buttonPressStartTime := millis s1\<rparr>
         else if millis s1 - buttonPressStartTime s1 > 3000 then triggerReset s1
         else s1)
      else s1\<lparr>buttonPressStartTime := 0\<rparr>)"

text \<open>Lines 122 to 149, the periodic server check:\<close>

definition loopServerCheck :: "world \<Rightarrow> sys \<Rightarrow> sys" where
  "loopServerCheck w s =
     (if millis s - lastServerCheckTime s > serverCheckInterval then
        (let s1 = s\<lparr>lastServerCheckTime := millis s\<rparr>;
             (serverIP, s2) = discoverServer w s1
         in if serverIP = [] then
              (if serverConnected s2 \<or> \<not> isBlinking s2 then
                 (let s3 = s2\<lparr>serverConnected := False\<rparr> in s3\<lparr>isBlinking := True\<rparr>)
               else s2)
            else
              (if \<not> serverConnected s2 then
                 (let s3 = s2\<lparr>serverConnected := True\<rparr>
                  in if isBlinking s3 then blinkLED True 0 s3 else s3)
               else s2))
      else s)"

text \<open>Lines 152 to 156, the alert button:\<close>

definition loopAlertButton :: "world \<Rightarrow> sys \<Rightarrow> sys" where
  "loopAlertButton w s =
     (if serverConnected s then
        (let (lvl, s1) = digitalRead_button w s in
         if lvl = LOW \<and> millis s1 - lastDebounceTime s1 > debounceDelay then
           (let s2 = s1\<lparr>lastDebounceTime := millis s1\<rparr>;
                s3 = emit AlertButtonPressed s2
            in toggleAlertState w s3)
         else s1)
      else s)"

text \<open>Lines 120 to 164:\<close>

definition loopConnectivity :: "world \<Rightarrow> sys \<Rightarrow> sys" where
  "loopConnectivity w s =
     (if configured (config s) then
        (let (st, s1) = WiFi_status w s in
         if st = WL_CONNECTED then loopAlertButton w (loopServerCheck w s1)
         else
           (let (st2, s2) = WiFi_status w s1 in
            if st2 \<noteq> WL_CONNECTED then
              (if millis s2 - lastServerCheckTime s2 > serverCheckInterval then
                 (let s3 = s2\<lparr>lastServerCheckTime := millis s2\<rparr>
                  in snd (reconnectWiFi w s3))
               else s2)
            else s2))
      else s)"

text \<open>Lines 167 to 170:\<close>

definition loopPortal :: "world \<Rightarrow> sys \<Rightarrow> sys" where
  "loopPortal w s = (if \<not> configured (config s) then server_handleClient w s else s)"

text \<open>A restart inside \<open>triggerReset\<close> ends the iteration, and a restarted device runs no more.\<close>

definition loop :: "world \<Rightarrow> sys \<Rightarrow> sys" where
  "loop w s =
     (if halted s then s
      else
        (let s1 = loopIndicator w s;
             s2 = loopResetCheck w s1
         in if halted s2 then s2
            else loopPortal w (loopConnectivity w s2)))"

text \<open>Time that passes between two iterations.\<close>

definition idle :: "32 word \<Rightarrow> sys \<Rightarrow> sys" where
  "idle dt s = s\<lparr>clock := clock s + dt\<rparr>"

subsection \<open>Power-on\<close>

text \<open>
  The globals at their initialisers and the configuration read from the EEPROM, as
  \<open>setup()\<close> has them at line 83; \<open>setup_fw\<close> is that function, for a boot pin that
  reads \<open>HIGH\<close>
  in \<open>checkForResetCondition\<close>, which then returns after its one read; with the pin held
  low that function busy-waits on the wall clock, which has no counterpart here.
\<close>

definition power_on :: "Config \<Rightarrow> sys" where
  "power_on rom =
     \<lparr>config = rom, alertState = False, lastDebounceTime = 0, buttonPressStartTime = 0,
      resetTriggered = False, serverConnected = False, isBlinking = False, lastBlinkTime = 0,
      ledState = False, lastServerCheckTime = 0, clock = 0, ledPin = LOW,
      eepromBuf = rom, eepromFlash = rom, portalActive = False, halted = False,
      trace = [DigitalWrite LOW], wifiPolls = 0, udpPolls = 0, httpCalls = 0,
      buttonReads = 0, bootReads = 0, webPolls = 0\<rparr>"

definition setup_fw :: "world \<Rightarrow> Config \<Rightarrow> sys" where
  "setup_fw w rom =
     (let (lvl, s1) = digitalRead_boot w (power_on rom);
          s2 = s1\<lparr>isBlinking := True\<rparr>;
          s3 = (if \<not> configured (config s2) then startCaptivePortal s2 else connectToWiFi w s2)
      in printNetworkInfo w s3)"

section \<open>Vocabulary of the properties\<close>

text \<open>
  Nothing below is part of the firmware. These are the words in which the properties are
  stated: measures of a trace, the conditions under which the loop acts, closed forms of
  what the loops emit, frame relations between a state and a later one, and the worlds and
  configurations of the examples.
\<close>

subsection \<open>Traces\<close>

text \<open>
  The events a call appended to the trace, and what is counted in them: the discovery
  broadcasts, the milliseconds spent in \<open>delay\<close>, the reports of the alert button, the
  requests sent (URL and body), and whether a request came back with a positive code.
\<close>

definition new_events :: "sys \<Rightarrow> sys \<Rightarrow> event list" where
  "new_events s s' = drop (length (trace s)) (trace s')"

fun broadcasts :: "event list \<Rightarrow> nat" where
  "broadcasts [] = 0"
| "broadcasts (UdpBroadcast p # es) = Suc (broadcasts es)"
| "broadcasts (e # es) = broadcasts es"


fun presses :: "event list \<Rightarrow> nat" where
  "presses [] = 0"
| "presses (AlertButtonPressed # es) = Suc (presses es)"
| "presses (e # es) = presses es"

fun posts :: "event list \<Rightarrow> (string \<times> string) list" where
  "posts [] = []"
| "posts (HttpPost url body code # es) = (url, body) # posts es"
| "posts (e # es) = posts es"

fun committed :: "event list \<Rightarrow> bool" where
  "committed [] = False"
| "committed (HttpPost url body code # es) = (code > 0 \<or> committed es)"
| "committed (e # es) = committed es"

text \<open>Iterations of \<open>loop\<close>, each after the given time has passed.\<close>

fun run :: "world \<Rightarrow> 32 word list \<Rightarrow> sys \<Rightarrow> sys" where
  "run w [] s = s"
| "run w (dt # dts) s = run w dts (loop w (idle dt s))"

subsection \<open>Discovery and association in closed form\<close>

text \<open>
  The first of the next \<open>n\<close> polls of the socket, counted from poll \<open>p\<close>, that finds a
  datagram; the trace of one attempt that polled \<open>k\<close> times in vain; and the trace of a
  whole discovery whose first datagram came at poll \<open>j\<close>, or never.
\<close>

fun firstReply :: "world \<Rightarrow> nat \<Rightarrow> nat \<Rightarrow> nat option" where
  "firstReply w p 0 = None"
| "firstReply w p (Suc n) =
     (if udpRx w p \<noteq> [] then Some 0 else map_option Suc (firstReply w (Suc p) n))"

definition attemptTrace :: "nat \<Rightarrow> event list" where
  "attemptTrace k = UdpBroadcast UDP_REQUEST # replicate k (Delay 50)"

definition discoveryTrace :: "nat option \<Rightarrow> event list" where
  "discoveryTrace r =
     (case r of
        None \<Rightarrow> concat (replicate 3 (attemptTrace 20))
      | Some j \<Rightarrow> concat (replicate (j div 20) (attemptTrace 20)) @ attemptTrace (j mod 20))"

text \<open>
  The number of waits of 500 ms that the association loop makes when it may make \<open>n\<close>
  and its status reads start at read \<open>p\<close>; what \<open>enhancedWiFiConnect\<close> emits up to the end
  of that loop; and what starting the portal emits.
\<close>

fun waitCount :: "world \<Rightarrow> nat \<Rightarrow> nat \<Rightarrow> nat" where
  "waitCount w p 0 = 0"
| "waitCount w p (Suc n) =
     (if wifiStatus w p \<noteq> WL_CONNECTED then Suc (waitCount w (Suc p) n) else 0)"

definition associationTrace :: "Config \<Rightarrow> nat \<Rightarrow> event list" where
  "associationTrace c k =
     [WifiDisconnect, Delay 100, WifiBegin (String_of (ssid c)) (String_of (password c))]
       @ replicate k (Delay 500)"


subsection \<open>Conditions of the loop\<close>

text \<open>
  The request that \<open>sendAlert\<close> makes to the address \<open>ip\<close>. When the boot button check of an
  iteration resets the device, and what the reset emits. When the connectivity part of an
  iteration reports the alert button. One blink of the LED at a given interval.
\<close>

definition alertRequest :: "Config \<Rightarrow> string \<Rightarrow> string \<times> string" where
  "alertRequest c ip = (''http://'' @ ip @ '':5000/alert'', ''name='' @ String_of (deviceName c))"

definition resetDue :: "world \<Rightarrow> sys \<Rightarrow> bool" where
  "resetDue w s \<longleftrightarrow>
     bootPin w (bootReads s) = LOW \<and> \<not> resetTriggered s \<and>
     buttonPressStartTime s \<noteq> 0 \<and> clock s - buttonPressStartTime s > 3000"

definition resetTrace :: "event list" where
  "resetTrace =
     [DigitalWrite HIGH, EepromPut blank, EepromCommit, Delay 1000, DigitalWrite LOW, Restart]"

definition alertDue :: "world \<Rightarrow> sys \<Rightarrow> bool" where
  "alertDue w s \<longleftrightarrow>
     configured (config s) \<and> wifiStatus w (wifiPolls s) = WL_CONNECTED \<and>
     serverConnected (loopServerCheck w (snd (WiFi_status w s))) \<and>
     buttonPin w (buttonReads s) = LOW \<and>
     clock (loopServerCheck w (snd (WiFi_status w s))) - lastDebounceTime s > debounceDelay"

definition blinkStep :: "32 word \<Rightarrow> sys \<Rightarrow> sys" where
  "blinkStep interval s =
     (if interval < clock s - lastBlinkTime s
      then s\<lparr>lastBlinkTime := clock s, ledState := \<not> ledState s,
             ledPin := level_of (\<not> ledState s),
             trace := trace s @ [DigitalWrite (level_of (\<not> ledState s))]\<rparr>
      else s)"

text \<open>
  A world in which WiFi stays connected, every poll of the socket finds a datagram that
  reads as a non-empty address and the boot button is up; a world in which the alert
  button is held down; and a state in which the button has just been reported.
\<close>

definition serverUp :: "world \<Rightarrow> bool" where
  "serverUp w \<longleftrightarrow>
     (\<forall>n. wifiStatus w n = WL_CONNECTED \<and> String_of (take 15 (udpRx w n)) \<noteq> [] \<and>
          bootPin w n = HIGH)"

definition buttonHeld :: "world \<Rightarrow> bool" where
  "buttonHeld w \<longleftrightarrow> (\<forall>n. buttonPin w n = LOW)"

definition justFired :: "sys \<Rightarrow> bool" where
  "justFired s \<longleftrightarrow>
     \<not> halted s \<and> configured (config s) \<and> serverConnected s \<and> lastDebounceTime s = clock s"

subsection \<open>Frames\<close>

text \<open>
  Three classes of events, each wider than the one before, and for each a relation between
  a state and a later one: the trace has grown by events of the class only, and a set of
  fields is as it was. \<open>quiet\<close> is what waiting, polling, discovery and the indicator do;
  \<open>calm\<close> allows a request as well, and is what a toggle does; \<open>keeps\<close> allows the report
  of the button too, and is what the connectivity part of an iteration does. None of them
  allows a write to the EEPROM or a restart. \<open>extends\<close> speaks of the trace alone and
  forbids only the write of the zeroed configuration; \<open>pressed\<close> counts the reports.
\<close>

fun inert :: "event \<Rightarrow> bool" where
  "inert (HttpPost url body code) = False"
| "inert (EepromPut c) = False"
| "inert EepromCommit = False"
| "inert Restart = False"
| "inert AlertButtonPressed = False"
| "inert e = True"

fun sendEvent :: "event \<Rightarrow> bool" where
  "sendEvent (EepromPut c) = False"
| "sendEvent EepromCommit = False"
| "sendEvent Restart = False"
| "sendEvent AlertButtonPressed = False"
| "sendEvent e = True"

fun benign :: "event \<Rightarrow> bool" where
  "benign (EepromPut c) = False"
| "benign EepromCommit = False"
| "benign Restart = False"
| "benign e = True"

fun noErase :: "event \<Rightarrow> bool" where
  "noErase (EepromPut c) = (c \<noteq> blank)"
| "noErase e = True"

definition quiet :: "sys \<Rightarrow> sys \<Rightarrow> bool" where
  "quiet s s' \<longleftrightarrow>
     config s' = config s \<and> alertState s' = alertState s \<and>
     eepromBuf s' = eepromBuf s \<and> eepromFlash s' = eepromFlash s \<and>
     halted s' = halted s \<and> resetTriggered s' = resetTriggered s \<and>
     portalActive s' = portalActive s \<and> httpCalls s' = httpCalls s \<and>
     lastDebounceTime s' = lastDebounceTime s \<and>
     buttonPressStartTime s' = buttonPressStartTime s \<and>
     (\<exists>tr. trace s' = trace s @ tr \<and> list_all inert tr)"

definition calm :: "sys \<Rightarrow> sys \<Rightarrow> bool" where
  "calm s s' \<longleftrightarrow>
     config s' = config s \<and> eepromBuf s' = eepromBuf s \<and> eepromFlash s' = eepromFlash s \<and>
     halted s' = halted s \<and> resetTriggered s' = resetTriggered s \<and>
     portalActive s' = portalActive s \<and> lastDebounceTime s' = lastDebounceTime s \<and>
     buttonPressStartTime s' = buttonPressStartTime s \<and>
     (\<exists>tr. trace s' = trace s @ tr \<and> list_all sendEvent tr)"

definition keeps :: "sys \<Rightarrow> sys \<Rightarrow> bool" where
  "keeps s s' \<longleftrightarrow>
     config s' = config s \<and> eepromBuf s' = eepromBuf s \<and> eepromFlash s' = eepromFlash s \<and>
     halted s' = halted s \<and> resetTriggered s' = resetTriggered s \<and>
     portalActive s' = portalActive s \<and>
     buttonPressStartTime s' = buttonPressStartTime s \<and>
     (\<exists>tr. trace s' = trace s @ tr \<and> list_all benign tr)"

definition extends :: "sys \<Rightarrow> sys \<Rightarrow> bool" where
  "extends s s' \<longleftrightarrow> (\<exists>tr. trace s' = trace s @ tr \<and> list_all noErase tr)"

definition pressed :: "nat \<Rightarrow> sys \<Rightarrow> sys \<Rightarrow> bool" where
  "pressed n s s' \<longleftrightarrow> (\<exists>tr. trace s' = trace s @ tr \<and> presses tr = n)"

text \<open>
  What \<open>sendAlert\<close> leaves behind: \<open>alertState\<close> as it found it if a request was answered
  and negated otherwise (the caller has flipped it before), at most one request, and that
  one the alert request of the device.
\<close>

definition sendOutcome :: "sys \<Rightarrow> sys \<Rightarrow> bool" where
  "sendOutcome s r \<longleftrightarrow>
     (\<exists>tr. trace r = trace s @ tr \<and>
        alertState r = (if committed tr then alertState s else \<not> alertState s) \<and>
        (posts tr = [] \<or> (\<exists>ip. ip \<noteq> [] \<and> posts tr = [alertRequest (config s) ip]))) \<and>
     calm s r"

subsection \<open>Worlds and configurations of the examples\<close>

text \<open>
  A device configured for the network \<open>home\<close> under a given label. Then the worlds:
  \<open>offline\<close> has no network at all. \<open>online\<close> has the network and a server at the given
  address that answers every request with the given code, and the alert button is held
  down. \<open>replyAt\<close> answers discovery at poll \<open>k\<close> only. In \<open>dropout\<close> WiFi is lost for
  good after the six status reads of start-up. In \<open>bootHeld\<close> the boot button is up at
  power-on and held down from then on. In \<open>flaky\<close> the eighth status read finds WiFi
  disconnected, discovery is answered at start-up, not for the next 60 polls and always
  after that, and the alert button is down at its first read only.
\<close>

definition labelled :: "string \<Rightarrow> Config" where
  "labelled name =
     \<lparr>ssid = strncpy 32 ''home'', password = strncpy 32 ''secret'',
      deviceName = strncpy 32 name, configured = True\<rparr>"

definition offline :: world where
  "offline =
     \<lparr>wifiStatus = (\<lambda>n. WL_DISCONNECTED), udpRx = (\<lambda>n. []),
      httpResponse = (\<lambda>n url body. - 1), buttonPin = (\<lambda>n. HIGH), bootPin = (\<lambda>n. HIGH),
      webClient = (\<lambda>n. NoRequest)\<rparr>"

definition online :: "string \<Rightarrow> int \<Rightarrow> world" where
  "online ip code =
     \<lparr>wifiStatus = (\<lambda>n. WL_CONNECTED), udpRx = (\<lambda>n. ip),
      httpResponse = (\<lambda>n url body. code), buttonPin = (\<lambda>n. LOW), bootPin = (\<lambda>n. HIGH),
      webClient = (\<lambda>n. NoRequest)\<rparr>"


definition dropout :: world where
  "dropout =
     \<lparr>wifiStatus = (\<lambda>n. if n < 6 then WL_CONNECTED else WL_CONNECTION_LOST),
      udpRx = (\<lambda>n. ''192.168.1.10''),
      httpResponse = (\<lambda>n url body. 200),
      buttonPin = (\<lambda>n. HIGH), bootPin = (\<lambda>n. HIGH),
      webClient = (\<lambda>n. NoRequest)\<rparr>"

definition bootHeld :: world where
  "bootHeld =
     \<lparr>wifiStatus = (\<lambda>n. WL_CONNECTED), udpRx = (\<lambda>n. ''192.168.1.10''),
      httpResponse = (\<lambda>n url body. 200), buttonPin = (\<lambda>n. HIGH),
      bootPin = (\<lambda>n. if n = 0 then HIGH else LOW), webClient = (\<lambda>n. NoRequest)\<rparr>"

definition flaky :: world where
  "flaky =
     \<lparr>wifiStatus = (\<lambda>n. if n = 7 then WL_DISCONNECTED else WL_CONNECTED),
      udpRx = (\<lambda>n. if 1 \<le> n \<and> n \<le> 60 then [] else ''192.168.1.10''),
      httpResponse = (\<lambda>n url body. 200),
      buttonPin = (\<lambda>n. if n = 0 then LOW else HIGH), bootPin = (\<lambda>n. HIGH),
      webClient = (\<lambda>n. NoRequest)\<rparr>"

section \<open>Proofs\<close>

declare discoverWait.simps [simp del]
declare discoverAttempts.simps [simp del]
declare waitForWiFi.simps [simp del]

subsection \<open>Discovery in closed form\<close>

lemma firstReply_Some:
  "firstReply w p n = Some j \<Longrightarrow>
     j < n \<and> udpRx w (p + j) \<noteq> [] \<and> (\<forall>i<j. udpRx w (p + i) = [])"
proof (induction n arbitrary: p j)
  case 0
  then show ?case by simp
next
  case (Suc n)
  show ?case
  proof (cases "udpRx w p \<noteq> []")
    case True
    with Suc.prems show ?thesis by simp
  next
    case False
    with Suc.prems obtain k where k: "firstReply w (Suc p) n = Some k" and j: "j = Suc k"
      by auto
    from Suc.IH [OF k] have ih: "k < n" "udpRx w (Suc p + k) \<noteq> []" "\<forall>i<k. udpRx w (Suc p + i) = []"
      by auto
    have "\<forall>i<Suc k. udpRx w (p + i) = []"
    proof (intro allI impI)
      fix i assume "i < Suc k"
      then show "udpRx w (p + i) = []"
        using False ih(3) by (cases i) auto
    qed
    with ih j show ?thesis by simp
  qed
qed

lemma firstReply_None:
  "firstReply w p n = None \<Longrightarrow> \<forall>i<n. udpRx w (p + i) = []"
proof (induction n arbitrary: p)
  case 0
  then show ?case by simp
next
  case (Suc n)
  from Suc.prems have e: "udpRx w p = []" and r: "firstReply w (Suc p) n = None"
    by (auto split: if_splits)
  from Suc.IH [OF r] have ih: "\<forall>i<n. udpRx w (Suc p + i) = []" .
  show ?case
  proof (intro allI impI)
    fix i assume "i < Suc n"
    then show "udpRx w (p + i) = []"
      using e ih by (cases i) auto
  qed
qed

lemma firstReply_add:
  "firstReply w p (a + b) =
     (case firstReply w p a of
        Some j \<Rightarrow> Some j
      | None \<Rightarrow> map_option (\<lambda>i. a + i) (firstReply w (p + a) b))"
proof (induction a arbitrary: p)
  case 0
  show ?case by (cases "firstReply w p b") simp_all
next
  case (Suc a)
  have e: "(+) (Suc a) = (\<lambda>x. Suc (a + x))"
    by auto
  show ?case
    by (simp add: Suc.IH e option.map_comp comp_def split: option.splits)
qed

lemma discoverWait_closed:
  "clock s - start = of_nat e \<Longrightarrow> e + 50 * n = 1000 \<Longrightarrow>
   discoverWait w start s =
     (case firstReply w (udpPolls s) n of
        None \<Rightarrow>
          (None, s\<lparr>clock := clock s + of_nat (50 * n), trace := trace s @ replicate n (Delay 50),
                   udpPolls := udpPolls s + n\<rparr>)
      | Some j \<Rightarrow>
          (Some (String_of (take 15 (udpRx w (udpPolls s + j)))),
           s\<lparr>clock := clock s + of_nat (50 * j), trace := trace s @ replicate j (Delay 50),
             udpPolls := udpPolls s + Suc j\<rparr>))"
proof (induction n arbitrary: s e)
  case 0
  then have "\<not> millis s - start < 1000"
    by (simp add: millis_def)
  then show ?case by (subst discoverWait.simps) simp
next
  case (Suc n)
  from Suc.prems have e: "e < 1000" by simp
  then have lt: "millis s - start < 1000"
    using Suc.prems(1) by (simp add: millis_def word_less_nat_alt unat_of_nat)
  show ?case
  proof (cases "udpRx w (udpPolls s) \<noteq> []")
    case True
    with lt show ?thesis
      by (subst discoverWait.simps) (simp add: udp_parsePacket_def)
  next
    case False
    let ?s1 = "delay 50 (s\<lparr>udpPolls := Suc (udpPolls s)\<rparr>)"
    have c: "clock ?s1 - start = of_nat (e + 50)"
      using Suc.prems(1) by (simp add: delay_def)
    have n: "(e + 50) + 50 * n = 1000"
      using Suc.prems(2) by simp
    have unfold: "discoverWait w start s = discoverWait w start ?s1"
      using lt False by (subst discoverWait.simps) (simp add: udp_parsePacket_def)
    show ?thesis
      unfolding unfold Suc.IH [OF c n]
      using False by (simp add: delay_def replicate_append_same split: option.splits)
  qed
qed

lemma discoverAttempts_closed:
  "k + m = 3 \<Longrightarrow>
   discoverAttempts w k s =
     (case firstReply w (udpPolls s) (20 * m) of
        None \<Rightarrow>
          ([], s\<lparr>clock := clock s + of_nat (1000 * m),
                 trace := trace s @ concat (replicate m (attemptTrace 20)),
                 udpPolls := udpPolls s + 20 * m\<rparr>)
      | Some j \<Rightarrow>
          (String_of (take 15 (udpRx w (udpPolls s + j))),
           s\<lparr>clock := clock s + of_nat (50 * j),
             trace := trace s @ concat (replicate (j div 20) (attemptTrace 20))
                        @ attemptTrace (j mod 20),
             udpPolls := udpPolls s + Suc j\<rparr>))"
proof (induction m arbitrary: k s)
  case 0
  then have "\<not> k < 3" by simp
  then show ?case by (subst discoverAttempts.simps) simp
next
  case (Suc m)
  from Suc.prems have k: "k < 3" and km: "(k + 1) + m = 3"
    by simp_all
  let ?s1 = "emit (UdpBroadcast UDP_REQUEST) s"
  have p1: "udpPolls ?s1 = udpPolls s"
    by (simp add: emit_def)
  have c0: "clock ?s1 - millis ?s1 = of_nat 0"
    by (simp add: millis_def)
  have n0: "0 + 50 * 20 = (1000::nat)"
    by simp
  note w = discoverWait_closed [OF c0 n0, of w, unfolded p1]
  have split: "firstReply w (udpPolls s) (20 + 20 * m) =
     (case firstReply w (udpPolls s) 20 of
        Some j \<Rightarrow> Some j
      | None \<Rightarrow> map_option (\<lambda>i. 20 + i) (firstReply w (udpPolls s + 20) (20 * m)))"
    using firstReply_add [of w "udpPolls s" 20 "20 * m"] by simp
  show ?case
  proof (cases "firstReply w (udpPolls s) 20")
    case (Some j)
    then have j: "j < 20"
      using firstReply_Some by blast
    show ?thesis
      using k j Some w
      by (subst discoverAttempts.simps)
         (simp add: split emit_def attemptTrace_def)
  next
    case None
    let ?s2 = "?s1\<lparr>clock := clock ?s1 + of_nat (50 * 20),
                     trace := trace ?s1 @ replicate 20 (Delay 50),
                     udpPolls := udpPolls ?s1 + 20\<rparr>"
    have unfold: "discoverAttempts w k s = discoverAttempts w (k + 1) ?s2"
      using k None w by (subst discoverAttempts.simps) (simp add: Let_def p1)
    have d: "\<And>i::nat. (20 + i) div 20 = Suc (i div 20)"
      by simp
    show ?thesis
      unfolding unfold Suc.IH [OF km]
      using None
      by (simp add: split emit_def attemptTrace_def d add.assoc split: option.splits)
  qed
qed

lemma improvedDiscoverServer_closed:
  "improvedDiscoverServer w s =
     (case firstReply w (udpPolls s) 60 of
        None \<Rightarrow>
          ([], s\<lparr>clock := clock s + 3000,
                 trace := trace s @ discoveryTrace None,
                 udpPolls := udpPolls s + 60\<rparr>)
      | Some j \<Rightarrow>
          (String_of (take 15 (udpRx w (udpPolls s + j))),
           s\<lparr>clock := clock s + of_nat (50 * j),
             trace := trace s @ discoveryTrace (Some j),
             udpPolls := udpPolls s + Suc j\<rparr>))"
  using discoverAttempts_closed [of 0 3 w s]
  by (simp add: improvedDiscoverServer_def discoveryTrace_def split: option.splits)

lemma broadcasts_append: "broadcasts (xs @ ys) = broadcasts xs + broadcasts ys"
  by (induction xs rule: broadcasts.induct) simp_all


lemma broadcasts_delays: "broadcasts (replicate k (Delay n)) = 0"
  by (induction k) simp_all









subsection \<open>Claim C5: discovery is bounded\<close>






subsection \<open>Association in closed form\<close>

text \<open>
  The association loop reads the status once more than it waits: it leaves after the first
  read that finds the network, or after the read that follows its last wait.
\<close>

lemma waitForWiFi_closed:
  "a + n = limit \<Longrightarrow>
   waitForWiFi w limit a s =
     s\<lparr>clock := clock s + of_nat (500 * waitCount w (wifiPolls s) n),
       trace := trace s @ replicate (waitCount w (wifiPolls s) n) (Delay 500),
       wifiPolls := wifiPolls s + Suc (waitCount w (wifiPolls s) n)\<rparr>"
proof (induction n arbitrary: a s)
  case 0
  then show ?case
    by (subst waitForWiFi.simps) (simp add: WiFi_status_def)
next
  case (Suc n)
  from Suc.prems have a: "a < limit" and an: "(a + 1) + n = limit"
    by simp_all
  show ?case
  proof (cases "wifiStatus w (wifiPolls s) = WL_CONNECTED")
    case True
    then show ?thesis
      by (subst waitForWiFi.simps) (simp add: WiFi_status_def)
  next
    case False
    let ?s1 = "delay 500 (s\<lparr>wifiPolls := Suc (wifiPolls s)\<rparr>)"
    have unfold: "waitForWiFi w limit a s = waitForWiFi w limit (a + 1) ?s1"
      using a False by (subst waitForWiFi.simps) (simp add: WiFi_status_def)
    show ?thesis
      unfolding unfold Suc.IH [OF an]
      using False by (simp add: delay_def replicate_append_same add.assoc)
  qed
qed


lemma waitCount_all:
  "(\<forall>i<n. wifiStatus w (p + i) \<noteq> WL_CONNECTED) \<Longrightarrow> waitCount w p n = n"
proof (induction n arbitrary: p)
  case 0
  show ?case by simp
next
  case (Suc n)
  from Suc.prems have h: "wifiStatus w p \<noteq> WL_CONNECTED"
    by (metis add.right_neutral zero_less_Suc)
  have "\<forall>i<n. wifiStatus w (Suc p + i) \<noteq> WL_CONNECTED"
    using Suc.prems by (metis Suc_less_eq add_Suc_shift)
  from Suc.IH [OF this] h show ?case by simp
qed

subsection \<open>Frames of the functions below the toggle\<close>

text \<open>
  Waiting, polling, discovery, the indicator and the reconnect are \<open>quiet\<close>: each is one
  step from the state it is given, and steps compose.
\<close>

lemma quiet_refl: "quiet s s"
  by (simp add: quiet_def)

lemma quiet_step:
  assumes "quiet s x"
    and "config y = config x" and "alertState y = alertState x"
    and "eepromBuf y = eepromBuf x" and "eepromFlash y = eepromFlash x"
    and "halted y = halted x" and "resetTriggered y = resetTriggered x"
    and "portalActive y = portalActive x" and "httpCalls y = httpCalls x"
    and "lastDebounceTime y = lastDebounceTime x"
    and "buttonPressStartTime y = buttonPressStartTime x"
    and "trace y = trace x @ ev" and "list_all inert ev"
  shows "quiet s y"
proof -
  from assms(1) obtain tr where tr: "trace x = trace s @ tr" "list_all inert tr"
    by (auto simp: quiet_def)
  have "trace y = trace s @ (tr @ ev)" "list_all inert (tr @ ev)"
    using tr assms(12,13) by simp_all
  then have "\<exists>t. trace y = trace s @ t \<and> list_all inert t"
    by blast
  with assms show ?thesis
    by (simp add: quiet_def)
qed

lemma quiet_trans: "quiet s x \<Longrightarrow> quiet x y \<Longrightarrow> quiet s y"
proof -
  assume a: "quiet s x" and b: "quiet x y"
  from b obtain ev where "trace y = trace x @ ev" "list_all inert ev"
    by (auto simp: quiet_def)
  with a b show ?thesis
    by (intro quiet_step [where x = x and y = y and ev = ev]) (simp_all add: quiet_def)
qed

lemma quiet_delay: "quiet s (delay n s)"
  by (rule quiet_step [OF quiet_refl, where ev = "[Delay n]"]) (simp_all add: delay_def)

lemma quiet_WiFi_status: "quiet s (snd (WiFi_status w s))"
  by (rule quiet_step [OF quiet_refl, where ev = "[]"]) (simp_all add: WiFi_status_def)

lemma quiet_printNetworkInfo: "quiet s (printNetworkInfo w s)"
  by (rule quiet_step [OF quiet_refl, where ev = "[]"])
     (simp_all add: printNetworkInfo_def WiFi_status_def)

lemma quiet_waitForWiFi: "quiet s (waitForWiFi w limit 0 s)"
  by (rule quiet_step [OF quiet_refl,
        where ev = "replicate (waitCount w (wifiPolls s) limit) (Delay 500)"])
     (simp_all add: waitForWiFi_closed [of 0 limit limit] list_all_length)

lemma inert_attemptTrace: "list_all inert (attemptTrace k)"
  by (simp add: attemptTrace_def list_all_iff)

lemma inert_attempts: "list_all inert (concat (replicate m (attemptTrace k)))"
  by (induction m) (simp_all add: inert_attemptTrace)

lemma inert_discoveryTrace: "list_all inert (discoveryTrace r)"
  by (cases r) (simp_all only: discoveryTrace_def option.case list_all_append
      inert_attempts inert_attemptTrace simp_thms)

lemma quiet_discoverServer: "quiet s (snd (discoverServer w s))"
  by (rule quiet_step [OF quiet_refl,
        where ev = "discoveryTrace (firstReply w (udpPolls s) 60)"])
     (simp_all add: discoverServer_def improvedDiscoverServer_closed inert_discoveryTrace
        split: option.splits)

lemma quiet_blinkLED: "quiet s (blinkLED stop interval s)"
proof (cases "stop")
  case True
  then show ?thesis
    by (intro quiet_step [OF quiet_refl, where ev = "[DigitalWrite (level_of (alertState s))]"])
       (simp_all add: blinkLED_def digitalWrite_led_def)
next
  case False
  show ?thesis
  proof (cases "isBlinking s \<and>
      millis s - lastBlinkTime s > (if interval > 0 then interval else blinkInterval)")
    case True
    with False show ?thesis
      by (intro quiet_step [OF quiet_refl, where ev = "[DigitalWrite (level_of (\<not> ledState s))]"])
         (simp_all add: blinkLED_def digitalWrite_led_def Let_def)
  next
    case False
    with \<open>\<not> stop\<close> have "blinkLED stop interval s = s"
      by (auto simp: blinkLED_def Let_def)
    then show ?thesis by (simp add: quiet_refl)
  qed
qed

lemma quiet_flags:
  "quiet s (s\<lparr>isBlinking := b\<rparr>)" "quiet s (s\<lparr>serverConnected := c\<rparr>)"
  "quiet s (s\<lparr>lastServerCheckTime := t\<rparr>)"
  by (rule quiet_step [OF quiet_refl, where ev = "[]"]; simp)+

lemma quiet_emit: "inert e \<Longrightarrow> quiet s (emit e s)"
  by (rule quiet_step [OF quiet_refl, where ev = "[e]"]) (simp_all add: emit_def)

lemmas quiet_chain =
  quiet_refl
  quiet_trans [OF _ quiet_delay]
  quiet_trans [OF _ quiet_WiFi_status]
  quiet_trans [OF _ quiet_printNetworkInfo]
  quiet_trans [OF _ quiet_waitForWiFi]
  quiet_trans [OF _ quiet_discoverServer]
  quiet_trans [OF _ quiet_blinkLED]
  quiet_trans [OF _ quiet_flags(1)]
  quiet_trans [OF _ quiet_flags(2)]
  quiet_trans [OF _ quiet_flags(3)]

lemma quiet_reconnectWiFi: "quiet s (snd (reconnectWiFi w s))"
  by (simp add: reconnectWiFi_def Let_def split_beta)
     (intro conjI impI quiet_chain quiet_trans [OF _ quiet_emit], simp_all)

subsection \<open>Measures of traces, and the wider frames\<close>

lemma committed_append: "committed (xs @ ys) = (committed xs \<or> committed ys)"
  by (induction xs rule: committed.induct) simp_all

lemma posts_append: "posts (xs @ ys) = posts xs @ posts ys"
  by (induction xs rule: posts.induct) simp_all

lemma inert_not_committed: "list_all inert xs \<Longrightarrow> \<not> committed xs"
  by (induction xs rule: committed.induct) simp_all

lemma inert_no_posts: "list_all inert xs \<Longrightarrow> posts xs = []"
  by (induction xs rule: posts.induct) simp_all

lemma new_events_append: "trace s' = trace s @ tr \<Longrightarrow> new_events s s' = tr"
  by (simp add: new_events_def)

lemma inert_sendEvent: "inert e \<Longrightarrow> sendEvent e"
  by (cases e) simp_all

lemma sendEvent_benign: "sendEvent e \<Longrightarrow> benign e"
  by (cases e) simp_all

lemma quiet_calm: "quiet s s' \<Longrightarrow> calm s s'"
  unfolding quiet_def calm_def list_all_iff using inert_sendEvent by blast

lemma calm_keeps: "calm s s' \<Longrightarrow> keeps s s'"
  unfolding calm_def keeps_def list_all_iff using sendEvent_benign by blast

lemma calm_refl: "calm s s"
  by (simp add: calm_def)

lemma keeps_refl: "keeps s s"
  by (simp add: keeps_def)

lemma calm_trans: "calm s x \<Longrightarrow> calm x y \<Longrightarrow> calm s y"
proof -
  assume a: "calm s x" and b: "calm x y"
  from a obtain t1 where t1: "trace x = trace s @ t1" "list_all sendEvent t1"
    by (auto simp: calm_def)
  from b obtain t2 where t2: "trace y = trace x @ t2" "list_all sendEvent t2"
    by (auto simp: calm_def)
  have "trace y = trace s @ (t1 @ t2)" "list_all sendEvent (t1 @ t2)"
    using t1 t2 by simp_all
  then have "\<exists>t. trace y = trace s @ t \<and> list_all sendEvent t"
    by blast
  with a b show ?thesis
    by (simp add: calm_def)
qed

lemma keeps_trans: "keeps s x \<Longrightarrow> keeps x y \<Longrightarrow> keeps s y"
proof -
  assume a: "keeps s x" and b: "keeps x y"
  from a obtain t1 where t1: "trace x = trace s @ t1" "list_all benign t1"
    by (auto simp: keeps_def)
  from b obtain t2 where t2: "trace y = trace x @ t2" "list_all benign t2"
    by (auto simp: keeps_def)
  have "trace y = trace s @ (t1 @ t2)" "list_all benign (t1 @ t2)"
    using t1 t2 by simp_all
  then have "\<exists>t. trace y = trace s @ t \<and> list_all benign t"
    by blast
  with a b show ?thesis
    by (simp add: keeps_def)
qed

lemma calm_event: "sendEvent e \<Longrightarrow> calm s (s\<lparr>trace := trace s @ [e]\<rparr>)"
  by (simp add: calm_def)

lemma calm_digitalWrite: "calm s (digitalWrite_led v s)"
  by (simp add: calm_def digitalWrite_led_def)

lemma calm_http_POST: "calm s (snd (http_POST w url body s))"
  by (simp add: calm_def http_POST_def Let_def)

lemma calm_flags:
  "calm s (s\<lparr>alertState := a\<rparr>)" "calm s (s\<lparr>ledState := l\<rparr>)"
  "calm s (s\<lparr>serverConnected := c\<rparr>)" "calm s (s\<lparr>isBlinking := b\<rparr>)"
  by (simp_all add: calm_def)

lemma presses_append: "presses (xs @ ys) = presses xs + presses ys"
  by (induction xs rule: presses.induct) simp_all

lemma sendEvent_no_presses: "list_all sendEvent xs \<Longrightarrow> presses xs = 0"
  by (induction xs rule: presses.induct) simp_all

subsection \<open>The reconnect that finds no network\<close>

lemma reconnectWiFi_exhausted:
  assumes "\<forall>i<7. wifiStatus w (wifiPolls s + i) \<noteq> WL_CONNECTED"
  shows "reconnectWiFi w s =
     (False,
      s\<lparr>isBlinking := True, serverConnected := False, clock := clock s + 2500,
        trace := trace s @ WifiReconnect # replicate 5 (Delay 500),
        wifiPolls := wifiPolls s + 7\<rparr>)"
proof -
  have "\<forall>i<5. wifiStatus w (wifiPolls s + i) \<noteq> WL_CONNECTED"
    using assms by simp
  then have k: "waitCount w (wifiPolls s) 5 = 5"
    by (rule waitCount_all)
  have last: "wifiStatus w (Suc (wifiPolls s + 5)) \<noteq> WL_CONNECTED"
    using assms [rule_format, of 6] by (simp add: add.commute)
  show ?thesis
    using last
    by (simp add: reconnectWiFi_def Let_def emit_def WiFi_status_def
        waitForWiFi_closed [of 0 5 5] k)
qed

subsection \<open>Claim C7: a failed reconnect leaves the configuration alone\<close>

text \<open>
  C7. When none of the seven reads of \<open>WiFi.status()\<close> that \<open>reconnectWiFi\<close> makes (six
  in the loop of five waits of 500 ms, one after it) finds the network, the function returns
  false, and the state it leaves differs from the one it found in \<open>isBlinking\<close>,
  \<open>serverConnected\<close>, the clock, the poll count and the trace only. In every case, failed
  or not, \<open>config\<close>, the EEPROM buffer and the committed EEPROM contents are the ones
  before the call, and nothing the call does is an EEPROM write, a commit or a restart.
\<close>

theorem reconnect_failure_keeps_config:
  "((\<forall>i<7. wifiStatus w (wifiPolls s + i) \<noteq> WL_CONNECTED) \<longrightarrow>
      reconnectWiFi w s =
        (False,
         s\<lparr>isBlinking := True, serverConnected := False, clock := clock s + 2500,
           trace := trace s @ WifiReconnect # replicate 5 (Delay 500),
           wifiPolls := wifiPolls s + 7\<rparr>)) \<and>
   config (snd (reconnectWiFi w s)) = config s \<and>
   eepromBuf (snd (reconnectWiFi w s)) = eepromBuf s \<and>
   eepromFlash (snd (reconnectWiFi w s)) = eepromFlash s \<and>
   trace (snd (reconnectWiFi w s)) = trace s @ new_events s (snd (reconnectWiFi w s)) \<and>
   list_all inert (new_events s (snd (reconnectWiFi w s)))"
proof -
  from quiet_reconnectWiFi [of s w] obtain tr
    where f: "config (snd (reconnectWiFi w s)) = config s"
      "eepromBuf (snd (reconnectWiFi w s)) = eepromBuf s"
      "eepromFlash (snd (reconnectWiFi w s)) = eepromFlash s"
    and tr: "trace (snd (reconnectWiFi w s)) = trace s @ tr" "list_all inert tr"
    by (auto simp: quiet_def)
  from tr(1) have n: "new_events s (snd (reconnectWiFi w s)) = tr"
    by (rule new_events_append)
  show ?thesis
    using f tr reconnectWiFi_exhausted [of w s] by (simp add: n)
qed

text \<open>With no network at all: the call fails and the configuration is the stored one.\<close>

theorem reconnect_failure_keeps_config_witness:
  "fst (reconnectWiFi offline (power_on (labelled ''hall''))) = False \<and>
   config (snd (reconnectWiFi offline (power_on (labelled ''hall'')))) = labelled ''hall'' \<and>
   eepromFlash (snd (reconnectWiFi offline (power_on (labelled ''hall'')))) = labelled ''hall''"
proof -
  have h: "\<forall>i<7. wifiStatus offline (wifiPolls (power_on (labelled ''hall'')) + i) \<noteq> WL_CONNECTED"
    by (simp add: offline_def)
  have c: "config (power_on (labelled ''hall'')) = labelled ''hall''"
    "eepromFlash (power_on (labelled ''hall'')) = labelled ''hall''"
    by (simp_all add: power_on_def)
  show ?thesis
    using reconnect_failure_keeps_config [of offline "power_on (labelled ''hall'')"] h c
    by simp
qed

subsection \<open>What the toggle leaves behind\<close>

text \<open>
  \<open>sendAlert\<close> runs quietly up to one of four ends, each a few explicit updates of the
  state reached: the revert after a failed reconnect, the revert after a failed discovery,
  the answered request and the revert after an unanswered one.
\<close>

lemma outcome_step:
  assumes q: "quiet s x"
    and t: "trace r = trace x @ ev"
    and a: "alertState r = (if committed ev then alertState x else \<not> alertState x)"
    and p: "posts ev = [] \<or> (\<exists>ip. ip \<noteq> [] \<and> posts ev = [alertRequest (config x) ip])"
    and k: "calm x r"
  shows "sendOutcome s r"
proof -
  from q obtain tr where tr: "trace x = trace s @ tr" "list_all inert tr"
    and c: "config x = config s" and al: "alertState x = alertState s"
    by (auto simp: quiet_def)
  have 1: "trace r = trace s @ (tr @ ev)"
    using t tr by simp
  have 2: "committed (tr @ ev) = committed ev"
    using tr(2) by (simp add: committed_append inert_not_committed)
  have 3: "posts (tr @ ev) = posts ev"
    using tr(2) by (simp add: posts_append inert_no_posts)
  have 4: "calm s r"
    using quiet_calm [OF q] k by (rule calm_trans)
  have "\<exists>tr. trace r = trace s @ tr \<and>
        alertState r = (if committed tr then alertState s else \<not> alertState s) \<and>
        (posts tr = [] \<or> (\<exists>ip. ip \<noteq> [] \<and> posts tr = [alertRequest (config s) ip]))"
    using 1 a p by (intro exI [of _ "tr @ ev"]) (simp only: 2 3 c al simp_thms)
  with 4 show ?thesis
    unfolding sendOutcome_def by blast
qed

lemma sendAlert_outcome: "sendOutcome s (sendAlert w state s)"
proof -
  obtain st s1 where ws: "WiFi_status w s = (st, s1)"
    by (cases "WiFi_status w s")
  obtain ok s2 where re: "(if st \<noteq> WL_CONNECTED then reconnectWiFi w s1 else (True, s1)) = (ok, s2)"
    by (cases "if st \<noteq> WL_CONNECTED then reconnectWiFi w s1 else (True, s1)")
  obtain serverIP s3 where ds: "discoverServer w s2 = (serverIP, s3)"
    by (cases "discoverServer w s2")
  have q1: "quiet s s1"
    using quiet_WiFi_status [of s w] ws by simp
  have "quiet s1 s2"
    using re quiet_reconnectWiFi [of s1 w] by (auto simp: quiet_refl split: if_splits)
  with q1 have q2: "quiet s s2"
    by (rule quiet_trans)
  have "quiet s2 s3"
    using quiet_discoverServer [of s2 w] ds by simp
  with q2 have q3: "quiet s s3"
    by (rule quiet_trans)
  show ?thesis
  proof (cases ok)
    case False
    then have r: "sendAlert w state s =
        digitalWrite_led (level_of (\<not> alertState s2))
          (s2\<lparr>alertState := \<not> alertState s2, ledState := \<not> alertState s2\<rparr>)"
      by (simp add: sendAlert_def ws re Let_def)
    show ?thesis
      unfolding r
      by (rule outcome_step [OF q2, where ev = "[DigitalWrite (level_of (\<not> alertState s2))]"])
         (simp_all add: digitalWrite_led_def calm_def)
  next
    case True
    note ok = this
    show ?thesis
    proof (cases "serverIP = []")
      case True
      with ok have r: "sendAlert w state s =
          s3\<lparr>serverConnected := False, isBlinking := True, alertState := \<not> alertState s3\<rparr>"
        by (simp add: sendAlert_def ws re ds Let_def)
      show ?thesis
        unfolding r by (rule outcome_step [OF q3, where ev = "[]"]) (simp_all add: calm_def)
    next
      case False
      define url where "url = ''http://'' @ serverIP @ '':5000/alert''"
      define body where "body = ''name='' @ String_of (deviceName (config s3))"
      define code where "code = httpResponse w (httpCalls s3) url body"
      have req: "alertRequest (config s3) serverIP = (url, body)"
        by (simp add: alertRequest_def url_def body_def)
      show ?thesis
      proof (cases "code > 0")
        case True
        with ok False have r: "sendAlert w state s =
            s3\<lparr>serverConnected := True, httpCalls := Suc (httpCalls s3),
               trace := trace s3 @ [HttpPost url body code]\<rparr>"
          by (simp add: sendAlert_def ws re ds Let_def http_POST_def url_def body_def code_def)
        show ?thesis
          unfolding r
          using True False req
          by (intro outcome_step [OF q3, where ev = "[HttpPost url body code]"])
             (auto simp: calm_def)
      next
        case nope: False
        with ok False have r: "sendAlert w state s =
            digitalWrite_led (level_of (\<not> alertState s3))
              (s3\<lparr>serverConnected := True, httpCalls := Suc (httpCalls s3),
                  trace := trace s3 @ [HttpPost url body code],
                  alertState := \<not> alertState s3, ledState := \<not> alertState s3\<rparr>)"
          by (simp add: sendAlert_def ws re ds Let_def http_POST_def url_def body_def code_def)
        show ?thesis
          unfolding r
          using nope False req
          by (intro outcome_step [OF q3,
                where ev = "[HttpPost url body code, DigitalWrite (level_of (\<not> alertState s3))]"])
             (auto simp: digitalWrite_led_def calm_def)
      qed
    qed
  qed
qed

lemma toggle_outcome:
  "\<exists>tr. new_events s (toggleAlertState w s) = DigitalWrite (level_of (\<not> alertState s)) # tr \<and>
        trace (toggleAlertState w s) = trace s @ DigitalWrite (level_of (\<not> alertState s)) # tr \<and>
        alertState (toggleAlertState w s) = (if committed tr then \<not> alertState s else alertState s) \<and>
        (posts tr = [] \<or> (\<exists>ip. ip \<noteq> [] \<and> posts tr = [alertRequest (config s) ip])) \<and>
        list_all sendEvent tr \<and> calm s (toggleAlertState w s)"
proof -
  define s3 where "s3 = digitalWrite_led (level_of (\<not> alertState s))
      (s\<lparr>alertState := \<not> alertState s, ledState := \<not> alertState s\<rparr>)"
  have r: "toggleAlertState w s = sendAlert w (\<not> alertState s) s3"
    by (simp add: toggleAlertState_def s3_def Let_def digitalWrite_led_def)
  have f: "trace s3 = trace s @ [DigitalWrite (level_of (\<not> alertState s))]"
    "alertState s3 = (\<not> alertState s)" "config s3 = config s"
    by (simp_all add: s3_def digitalWrite_led_def)
  from sendAlert_outcome [of s3 w "\<not> alertState s"] obtain tr
    where tr: "trace (sendAlert w (\<not> alertState s) s3) = trace s3 @ tr"
      and al: "alertState (sendAlert w (\<not> alertState s) s3)
                 = (if committed tr then alertState s3 else \<not> alertState s3)"
      and po: "posts tr = [] \<or> (\<exists>ip. ip \<noteq> [] \<and> posts tr = [alertRequest (config s3) ip])"
      and ca: "calm s3 (sendAlert w (\<not> alertState s) s3)"
    unfolding sendOutcome_def by blast
  from ca tr have se: "list_all sendEvent tr"
    by (auto simp: calm_def)
  have "calm s s3"
    by (simp add: calm_def s3_def digitalWrite_led_def)
  from this ca have cs: "calm s (toggleAlertState w s)"
    unfolding r by (rule calm_trans)
  have t: "trace (toggleAlertState w s) = trace s @ DigitalWrite (level_of (\<not> alertState s)) # tr"
    by (simp add: r tr f)
  have n: "new_events s (toggleAlertState w s) = DigitalWrite (level_of (\<not> alertState s)) # tr"
    using t by (rule new_events_append)
  show ?thesis
    using t n al po se cs by (intro exI [of _ tr]) (simp add: r f)
qed

lemma calm_toggleAlertState: "calm s (toggleAlertState w s)"
  using toggle_outcome [of s w] by blast

subsection \<open>Claim C1: the toggle commits or reverts\<close>

text \<open>
  C1. After \<open>toggleAlertState\<close> (which flips \<open>alertState\<close> and calls \<open>sendAlert\<close>)
  has returned, \<open>alertState\<close> is the negation of what it was before the call exactly when
  the call made a POST that came back with a positive code, that is, with an HTTP response.
  In every other case (the reconnect failed, discovery found no server, or the POST
  returned a transport error) it is what it was before the call.
\<close>

theorem toggle_commits_or_reverts:
  "trace (toggleAlertState w s) = trace s @ new_events s (toggleAlertState w s) \<and>
   alertState (toggleAlertState w s) =
     (if committed (new_events s (toggleAlertState w s)) then \<not> alertState s else alertState s)"
proof -
  from toggle_outcome [of s w] obtain tr
    where "new_events s (toggleAlertState w s) = DigitalWrite (level_of (\<not> alertState s)) # tr"
      and "trace (toggleAlertState w s) = trace s @ DigitalWrite (level_of (\<not> alertState s)) # tr"
      and "alertState (toggleAlertState w s) = (if committed tr then \<not> alertState s else alertState s)"
    by blast
  then show ?thesis by simp
qed

lemma toggle_online_committed:
  "committed (new_events (power_on (labelled ''hall''))
     (toggleAlertState (online ''192.168.1.10'' 200) (power_on (labelled ''hall''))))"
  by code_simp

lemma toggle_refused_not_committed:
  "\<not> committed (new_events (power_on (labelled ''hall''))
     (toggleAlertState (online ''192.168.1.10'' (- 1)) (power_on (labelled ''hall''))))"
  by code_simp

text \<open>A server that answers 200 commits the toggle; a connection that is refused reverts it.\<close>

theorem toggle_commits_or_reverts_witness:
  "alertState (toggleAlertState (online ''192.168.1.10'' 200) (power_on (labelled ''hall''))) = True \<and>
   alertState (toggleAlertState (online ''192.168.1.10'' (- 1)) (power_on (labelled ''hall''))) = False"
  using toggle_commits_or_reverts [of "online ''192.168.1.10'' 200" "power_on (labelled ''hall'')"]
    toggle_commits_or_reverts [of "online ''192.168.1.10'' (- 1)" "power_on (labelled ''hall'')"]
    toggle_online_committed toggle_refused_not_committed
  by (simp add: power_on_def)

subsection \<open>Claim C2: what the alert request carries\<close>




subsection \<open>The two ends of the initial connect\<close>


lemma broadcasts_associationTrace: "broadcasts (associationTrace c k) = 0"
  by (simp add: associationTrace_def broadcasts_append broadcasts_delays)


subsection \<open>Claim C6: the initial connect\<close>



subsection \<open>Frames of the loop\<close>

text \<open>
  From here on the examples evaluate discovery through its closed form, proved above,
  instead of unfolding its sixty polls one by one.
\<close>

declare improvedDiscoverServer_closed [code]

lemma quiet_loopIndicator: "quiet s (loopIndicator w s)"
  by (simp add: loopIndicator_def Let_def split_beta)
     (intro conjI impI quiet_chain)

lemma loopIndicator_frame:
  "clock (loopIndicator w s) = clock s" "bootReads (loopIndicator w s) = bootReads s"
  "serverConnected (loopIndicator w s) = serverConnected s"
  "buttonReads (loopIndicator w s) = buttonReads s"
  by (simp_all add: loopIndicator_def Let_def split_beta blinkLED_def WiFi_status_def
      digitalWrite_led_def millis_def)

lemma quiet_loopServerCheck: "quiet s (loopServerCheck w s)"
  by (simp add: loopServerCheck_def Let_def split_beta)
     (intro conjI impI quiet_chain)

lemma keeps_loopAlertButton: "keeps s (loopAlertButton w s)"
proof -
  have 1: "keeps s (s\<lparr>buttonReads := Suc (buttonReads s)\<rparr>)"
    by (simp add: keeps_def)
  have 2: "keeps s (emit AlertButtonPressed
      (s\<lparr>buttonReads := Suc (buttonReads s), lastDebounceTime := t\<rparr>))" for t
    by (simp add: keeps_def emit_def)
  show ?thesis
    by (auto simp: loopAlertButton_def Let_def digitalRead_button_def millis_def keeps_refl 1
        intro: keeps_trans [OF 2 calm_keeps [OF calm_toggleAlertState]])
qed

lemma quiet_keeps: "quiet s s' \<Longrightarrow> keeps s s'"
  by (rule calm_keeps [OF quiet_calm])

lemma keeps_loopConnectivity: "keeps s (loopConnectivity w s)"
proof -
  have 1: "keeps s (loopAlertButton w (loopServerCheck w (snd (WiFi_status w s))))"
    by (intro keeps_trans [OF _ keeps_loopAlertButton] quiet_keeps
        quiet_trans [OF _ quiet_loopServerCheck] quiet_WiFi_status)
  have 2: "keeps s (snd (WiFi_status w (snd (WiFi_status w s))))"
    by (intro quiet_keeps quiet_chain)
  have 3: "keeps s (snd (reconnectWiFi w
      (snd (WiFi_status w (snd (WiFi_status w s)))\<lparr>lastServerCheckTime := t\<rparr>)))" for t
    by (intro quiet_keeps quiet_trans [OF _ quiet_reconnectWiFi] quiet_chain)
  show ?thesis
    by (simp add: loopConnectivity_def Let_def split_beta keeps_refl 1 2 3)
qed

lemma benign_noErase: "benign e \<Longrightarrow> noErase e"
  by (cases e) simp_all

lemma keeps_extends: "keeps s s' \<Longrightarrow> extends s s'"
  unfolding keeps_def extends_def list_all_iff using benign_noErase by blast

lemma extends_trans: "extends s x \<Longrightarrow> extends x y \<Longrightarrow> extends s y"
proof -
  assume "extends s x" and "extends x y"
  then obtain t1 t2 where "trace x = trace s @ t1" "list_all noErase t1"
    "trace y = trace x @ t2" "list_all noErase t2"
    by (auto simp: extends_def)
  then have "trace y = trace s @ (t1 @ t2)" "list_all noErase (t1 @ t2)"
    by simp_all
  then show ?thesis
    unfolding extends_def by blast
qed

lemma blank_not_configured: "c\<lparr>configured := True\<rparr> \<noteq> blank"
proof
  assume "c\<lparr>configured := True\<rparr> = blank"
  then have "configured (c\<lparr>configured := True\<rparr>) = configured blank"
    by simp
  then show False by (simp add: blank_def)
qed

lemma extends_loopPortal: "extends s (loopPortal w s)"
proof (cases "\<not> configured (config s) \<and> portalActive s")
  case False
  then have "loopPortal w s = s"
    by (auto simp: loopPortal_def server_handleClient_def)
  then show ?thesis by (simp add: extends_def)
next
  case True
  show ?thesis
  proof (cases "webClient w (webPolls s)")
    case NoRequest
    with True show ?thesis
      by (simp add: loopPortal_def server_handleClient_def extends_def)
  next
    case GetPage
    with True show ?thesis
      by (simp add: loopPortal_def server_handleClient_def extends_def handleRoot_def emit_def)
  next
    case GetOther
    with True show ?thesis
      by (simp add: loopPortal_def server_handleClient_def extends_def emit_def)
  next
    case (PostSave a b c)
    with True show ?thesis
      by (simp add: loopPortal_def server_handleClient_def extends_def handleSave_def Let_def
          emit_def delay_def EEPROM_put_def EEPROM_commit_def ESP_restart_def
          blank_not_configured)
  qed
qed

lemma loopPortal_frame:
  "buttonPressStartTime (loopPortal w s) = buttonPressStartTime s"
  "configured (config s) \<Longrightarrow> loopPortal w s = s"
  by (simp_all add: loopPortal_def server_handleClient_def handleRoot_def handleSave_def
      Let_def emit_def delay_def EEPROM_put_def EEPROM_commit_def ESP_restart_def
      split: web_request.splits)

lemma loop_reset_due:
  assumes "\<not> halted s" and "resetDue w s"
  shows "loop w s =
     (loopIndicator w s)\<lparr>bootReads := Suc (bootReads s), ledPin := LOW,
        eepromBuf := blank, eepromFlash := blank, clock := clock s + 1000,
        resetTriggered := True, halted := True,
        trace := trace (loopIndicator w s) @ resetTrace\<rparr>"
proof -
  define s1 where "s1 = loopIndicator w s"
  from quiet_loopIndicator [of s w]
  have q: "halted s1 = halted s" "resetTriggered s1 = resetTriggered s"
    "buttonPressStartTime s1 = buttonPressStartTime s"
    by (simp_all add: quiet_def s1_def)
  have f: "clock s1 = clock s" "bootReads s1 = bootReads s"
    by (simp_all add: s1_def loopIndicator_frame)
  have r: "loopResetCheck w s1 =
     s1\<lparr>bootReads := Suc (bootReads s), ledPin := LOW,
        eepromBuf := blank, eepromFlash := blank, clock := clock s + 1000,
        resetTriggered := True, halted := True, trace := trace s1 @ resetTrace\<rparr>"
    using assms(2)
    by (simp add: loopResetCheck_def resetDue_def digitalRead_boot_def Let_def q f millis_def
        triggerReset_def digitalWrite_led_def EEPROM_put_def EEPROM_commit_def delay_def
        ESP_restart_def resetTrace_def)
  have "loop w s = loopResetCheck w s1"
    using assms(1) by (simp add: loop_def Let_def s1_def [symmetric] r)
  also note r
  finally show ?thesis
    unfolding s1_def .
qed

lemma loop_reset_not_due:
  assumes "\<not> halted s" and "\<not> resetDue w s"
  shows "extends s (loop w s) \<and>
     buttonPressStartTime (loop w s) =
       (if bootPin w (bootReads s) = LOW \<and> \<not> resetTriggered s
        then (if buttonPressStartTime s = 0 then clock s else buttonPressStartTime s)
        else 0) \<and>
     (configured (config s) \<longrightarrow>
        \<not> halted (loop w s) \<and> eepromFlash (loop w s) = eepromFlash s \<and>
        config (loop w s) = config s)"
proof -
  define s1 where "s1 = loopIndicator w s"
  define b where "b = (if bootPin w (bootReads s) = LOW \<and> \<not> resetTriggered s
        then (if buttonPressStartTime s = 0 then clock s else buttonPressStartTime s)
        else 0)"
  define s2 where "s2 = s1\<lparr>bootReads := Suc (bootReads s), buttonPressStartTime := b\<rparr>"
  have q1: "quiet s s1"
    unfolding s1_def by (rule quiet_loopIndicator)
  then have q: "halted s1 = halted s" "resetTriggered s1 = resetTriggered s"
    "buttonPressStartTime s1 = buttonPressStartTime s" "config s1 = config s"
    "eepromFlash s1 = eepromFlash s"
    by (simp_all add: quiet_def)
  have f: "clock s1 = clock s" "bootReads s1 = bootReads s"
    by (simp_all add: s1_def loopIndicator_frame)
  have r: "loopResetCheck w s1 = s2"
    using assms(2)
    by (auto simp: loopResetCheck_def resetDue_def digitalRead_boot_def Let_def q f millis_def
        s2_def b_def)
  have l: "loop w s = loopPortal w (loopConnectivity w s2)"
    using assms(1) by (simp add: loop_def Let_def s1_def [symmetric] r) (simp add: s2_def q)
  have k: "keeps s2 (loopConnectivity w s2)"
    by (rule keeps_loopConnectivity)
  have e2: "extends s s2"
    using keeps_extends [OF quiet_keeps [OF q1]] by (simp add: extends_def s2_def)
  have e: "extends s (loop w s)"
    unfolding l
    by (intro extends_trans [OF _ extends_loopPortal] extends_trans [OF e2] keeps_extends k)
  have bp: "buttonPressStartTime (loop w s) = b"
    using k by (simp add: l loopPortal_frame(1) keeps_def s2_def)
  have c: "\<not> halted (loop w s) \<and> eepromFlash (loop w s) = eepromFlash s \<and>
      config (loop w s) = config s" if "configured (config s)"
  proof -
    from k have "config (loopConnectivity w s2) = config s"
      "halted (loopConnectivity w s2) = halted s"
      "eepromFlash (loopConnectivity w s2) = eepromFlash s"
      by (simp_all add: keeps_def s2_def q)
    with that assms(1) show ?thesis
      by (simp add: l loopPortal_frame(2))
  qed
  show ?thesis
    using e bp c by (simp add: b_def)
qed

subsection \<open>Claim C9: the factory reset\<close>

text \<open>
  C9, as stated, lets a hold of 3000 ms clear the configuration. The loop asks for more:
  with the boot pin read low at 1000 ms and again at 4000 ms, nothing is cleared and the
  device does not restart.
\<close>

theorem reset_after_3000ms_counterexample:
  "bootPin bootHeld 1 = LOW \<and> bootPin bootHeld 2 = LOW \<and>
   bootReads (setup_fw bootHeld (labelled ''hall'')) = 1 \<and>
   clock (run bootHeld [900] (setup_fw bootHeld (labelled ''hall''))) = 1000 \<and>
   buttonPressStartTime (run bootHeld [900] (setup_fw bootHeld (labelled ''hall''))) = 1000 \<and>
   clock (run bootHeld [900, 3000] (setup_fw bootHeld (labelled ''hall''))) = 4000 \<and>
   bootReads (run bootHeld [900, 3000] (setup_fw bootHeld (labelled ''hall''))) = 3 \<and>
   \<not> halted (run bootHeld [900, 3000] (setup_fw bootHeld (labelled ''hall''))) \<and>
   eepromFlash (run bootHeld [900, 3000] (setup_fw bootHeld (labelled ''hall''))) = labelled ''hall''"
  by code_simp

text \<open>
  C9, amended. An iteration of \<open>loop\<close> resets the device exactly when it reads the boot pin
  low, no reset has been triggered, a press is being timed (\<open>buttonPressStartTime\<close> is not
  0) and \<open>millis()\<close> is more than 3000 ms past the start of the press. The press starts at
  the first iteration that reads the pin low, which stores \<open>millis()\<close>, and any iteration
  that reads the pin high forgets it. The reset writes the zeroed configuration to the
  EEPROM and commits it, waits 1000 ms and then restarts, once; nothing else of the
  iteration runs, and a restarted device runs no more. An iteration that does not reset
  writes no zeroed configuration.
\<close>

theorem factory_reset_hold:
  "(halted s \<longrightarrow> loop w s = s) \<and>
   (\<not> halted s \<and> resetDue w s \<longrightarrow>
      loop w s =
        (loopIndicator w s)\<lparr>bootReads := Suc (bootReads s), ledPin := LOW,
           eepromBuf := blank, eepromFlash := blank, clock := clock s + 1000,
           resetTriggered := True, halted := True,
           trace := trace (loopIndicator w s) @ resetTrace\<rparr>) \<and>
   (\<not> halted s \<and> \<not> resetDue w s \<longrightarrow>
      trace (loop w s) = trace s @ new_events s (loop w s) \<and>
      list_all noErase (new_events s (loop w s)) \<and>
      buttonPressStartTime (loop w s) =
        (if bootPin w (bootReads s) = LOW \<and> \<not> resetTriggered s
         then (if buttonPressStartTime s = 0 then clock s else buttonPressStartTime s)
         else 0) \<and>
      (configured (config s) \<longrightarrow>
         \<not> halted (loop w s) \<and> eepromFlash (loop w s) = eepromFlash s \<and>
         config (loop w s) = config s))"
proof -
  have 1: "halted s \<longrightarrow> loop w s = s"
    by (simp add: loop_def)
  have 3: "trace (loop w s) = trace s @ new_events s (loop w s) \<and>
      list_all noErase (new_events s (loop w s))"
    if "\<not> halted s" "\<not> resetDue w s"
  proof -
    from loop_reset_not_due [OF that] obtain tr
      where tr: "trace (loop w s) = trace s @ tr" "list_all noErase tr"
      by (auto simp: extends_def)
    from tr(1) have "new_events s (loop w s) = tr"
      by (rule new_events_append)
    with tr show ?thesis by simp
  qed
  show ?thesis
    using 1 3 loop_reset_due [of s w] loop_reset_not_due [of s w] by blast
qed

text \<open>One millisecond more than in the example above, and the device is reset.\<close>

lemma held_3001_due:
  "\<not> halted (idle 3001 (run bootHeld [900] (setup_fw bootHeld (labelled ''hall'')))) \<and>
   resetDue bootHeld (idle 3001 (run bootHeld [900] (setup_fw bootHeld (labelled ''hall''))))"
  by code_simp

theorem factory_reset_hold_witness:
  "eepromFlash (run bootHeld [900, 3001] (setup_fw bootHeld (labelled ''hall''))) = blank \<and>
   halted (run bootHeld [900, 3001] (setup_fw bootHeld (labelled ''hall''))) \<and>
   new_events (loopIndicator bootHeld
        (idle 3001 (run bootHeld [900] (setup_fw bootHeld (labelled ''hall'')))))
      (run bootHeld [900, 3001] (setup_fw bootHeld (labelled ''hall''))) = resetTrace"
proof -
  let ?s = "idle 3001 (run bootHeld [900] (setup_fw bootHeld (labelled ''hall'')))"
  have r: "run bootHeld [900, 3001] (setup_fw bootHeld (labelled ''hall'')) = loop bootHeld ?s"
    by simp
  from factory_reset_hold [of ?s bootHeld] held_3001_due
  have "loop bootHeld ?s =
        (loopIndicator bootHeld ?s)\<lparr>bootReads := Suc (bootReads ?s), ledPin := LOW,
           eepromBuf := blank, eepromFlash := blank, clock := clock ?s + 1000,
           resetTriggered := True, halted := True,
           trace := trace (loopIndicator bootHeld ?s) @ resetTrace\<rparr>"
    by blast
  then show ?thesis
    unfolding r by (simp add: new_events_def)
qed

subsection \<open>Reports of the alert button\<close>

lemma pressed_trans: "pressed a s x \<Longrightarrow> pressed b x y \<Longrightarrow> pressed (a + b) s y"
proof -
  assume "pressed a s x" and "pressed b x y"
  then obtain t1 t2 where "trace x = trace s @ t1" "presses t1 = a"
    "trace y = trace x @ t2" "presses t2 = b"
    by (auto simp: pressed_def)
  then have "trace y = trace s @ (t1 @ t2)" "presses (t1 @ t2) = a + b"
    by (simp_all add: presses_append)
  then show ?thesis
    unfolding pressed_def by blast
qed

lemma calm_pressed: "calm s s' \<Longrightarrow> pressed 0 s s'"
  unfolding calm_def pressed_def using sendEvent_no_presses by blast

lemma quiet_pressed: "quiet s s' \<Longrightarrow> pressed 0 s s'"
  by (rule calm_pressed [OF quiet_calm])

lemma pressed_new_events: "pressed n s s' \<Longrightarrow> presses (new_events s s') = n"
  by (auto simp: pressed_def new_events_def)

lemma loopServerCheck_buttonReads: "buttonReads (loopServerCheck w s) = buttonReads s"
  by (simp add: loopServerCheck_def Let_def split_beta discoverServer_def
      improvedDiscoverServer_closed blinkLED_def digitalWrite_led_def split: option.splits)

lemma loopAlertButton_fires:
  assumes "serverConnected s" and "buttonPin w (buttonReads s) = LOW"
    and "clock s - lastDebounceTime s > debounceDelay"
  shows "loopAlertButton w s =
     toggleAlertState w
       (s\<lparr>buttonReads := Suc (buttonReads s), lastDebounceTime := clock s,
          trace := trace s @ [AlertButtonPressed]\<rparr>)"
  using assms
  by (simp add: loopAlertButton_def digitalRead_button_def Let_def millis_def emit_def)

lemma loopAlertButton_skips:
  assumes "\<not> (serverConnected s \<and> buttonPin w (buttonReads s) = LOW \<and>
      clock s - lastDebounceTime s > debounceDelay)"
  shows "loopAlertButton w s =
     (if serverConnected s then s\<lparr>buttonReads := Suc (buttonReads s)\<rparr> else s)"
  using assms
  by (auto simp: loopAlertButton_def digitalRead_button_def Let_def millis_def)

lemma loopAlertButton_pressed:
  assumes "serverConnected s" and "buttonPin w (buttonReads s) = LOW"
    and "clock s - lastDebounceTime s > debounceDelay"
  shows "pressed 1 s (loopAlertButton w s) \<and> lastDebounceTime (loopAlertButton w s) = clock s"
proof -
  define x where "x = s\<lparr>buttonReads := Suc (buttonReads s), lastDebounceTime := clock s,
          trace := trace s @ [AlertButtonPressed]\<rparr>"
  have r: "loopAlertButton w s = toggleAlertState w x"
    unfolding x_def using assms by (rule loopAlertButton_fires)
  have c: "calm x (toggleAlertState w x)"
    by (rule calm_toggleAlertState)
  have "pressed 1 s x"
    by (simp add: pressed_def x_def)
  from pressed_trans [OF this calm_pressed [OF c]] have "pressed 1 s (toggleAlertState w x)"
    by simp
  moreover from c have "lastDebounceTime (toggleAlertState w x) = clock s"
    by (simp add: calm_def x_def)
  ultimately show ?thesis
    by (simp add: r)
qed

lemma loopConnectivity_presses:
  "pressed (if alertDue w s then 1 else 0) s (loopConnectivity w s) \<and>
   (alertDue w s \<longrightarrow>
      lastDebounceTime (loopConnectivity w s) = clock (loopServerCheck w (snd (WiFi_status w s)))) \<and>
   (\<not> alertDue w s \<longrightarrow>
      lastDebounceTime (loopConnectivity w s) = lastDebounceTime s \<and>
      alertState (loopConnectivity w s) = alertState s)"
proof (cases "configured (config s) \<and> wifiStatus w (wifiPolls s) = WL_CONNECTED")
  case False
  then have nd: "\<not> alertDue w s"
    by (auto simp: alertDue_def)
  have "quiet s (loopConnectivity w s)"
  proof -
    have 2: "quiet s (snd (WiFi_status w (snd (WiFi_status w s))))"
      by (intro quiet_chain)
    have 3: "quiet s (snd (reconnectWiFi w
        (snd (WiFi_status w (snd (WiFi_status w s)))\<lparr>lastServerCheckTime := t\<rparr>)))" for t
      by (intro quiet_trans [OF _ quiet_reconnectWiFi] quiet_chain)
    have 4: "fst (WiFi_status w s) = wifiStatus w (wifiPolls s)"
      by (simp add: WiFi_status_def)
    from False show ?thesis
      by (auto simp: loopConnectivity_def Let_def split_beta quiet_refl 2 3 4)
  qed
  with nd show ?thesis
    using quiet_pressed [of s "loopConnectivity w s"] by (simp add: quiet_def)
next
  case True
  define s1 where "s1 = loopServerCheck w (snd (WiFi_status w s))"
  have q: "quiet s s1"
    unfolding s1_def by (intro quiet_trans [OF _ quiet_loopServerCheck] quiet_WiFi_status)
  then have f: "lastDebounceTime s1 = lastDebounceTime s" "alertState s1 = alertState s"
    by (simp_all add: quiet_def)
  have b: "buttonReads s1 = buttonReads s"
    by (simp add: s1_def loopServerCheck_buttonReads WiFi_status_def)
  have 4: "fst (WiFi_status w s) = wifiStatus w (wifiPolls s)"
    by (simp add: WiFi_status_def)
  have r: "loopConnectivity w s = loopAlertButton w s1"
    using True by (simp add: loopConnectivity_def Let_def split_beta s1_def 4)
  have d: "alertDue w s \<longleftrightarrow> serverConnected s1 \<and> buttonPin w (buttonReads s1) = LOW \<and>
      clock s1 - lastDebounceTime s1 > debounceDelay"
    using True by (simp add: alertDue_def s1_def f [unfolded s1_def] b [unfolded s1_def])
  show ?thesis
  proof (cases "alertDue w s")
    case True
    with d have c: "serverConnected s1" "buttonPin w (buttonReads s1) = LOW"
      "clock s1 - lastDebounceTime s1 > debounceDelay"
      by simp_all
    from loopAlertButton_pressed [OF c] pressed_trans [OF quiet_pressed [OF q]]
    have "pressed 1 s (loopAlertButton w s1)" "lastDebounceTime (loopAlertButton w s1) = clock s1"
      by auto
    with True show ?thesis
      by (simp add: r s1_def)
  next
    case False
    with d have "\<not> (serverConnected s1 \<and> buttonPin w (buttonReads s1) = LOW \<and>
      clock s1 - lastDebounceTime s1 > debounceDelay)"
      by simp
    from loopAlertButton_skips [OF this]
    have "quiet s1 (loopAlertButton w s1)"
      by (auto simp: quiet_def)
    with q have "quiet s (loopAlertButton w s1)"
      by (rule quiet_trans)
    with False show ?thesis
      using quiet_pressed [of s "loopAlertButton w s1"] by (simp add: r quiet_def)
  qed
qed

subsection \<open>A held button on a network that is up\<close>

text \<open>
  On such a network discovery is answered at its first poll and no time passes inside an
  iteration, so an iteration that starts more than 500 ms after a report ends in the
  state of a report again.
\<close>

lemma firstReply_now: "udpRx w p \<noteq> [] \<Longrightarrow> firstReply w p (Suc n) = Some 0"
  by simp

lemma discover_up:
  assumes "String_of (take 15 (udpRx w (udpPolls s))) \<noteq> []"
  shows "discoverServer w s =
     (String_of (take 15 (udpRx w (udpPolls s))),
      s\<lparr>trace := trace s @ [UdpBroadcast UDP_REQUEST], udpPolls := Suc (udpPolls s)\<rparr>)"
proof -
  from assms have "udpRx w (udpPolls s) \<noteq> []"
    by (auto simp: String_of_def)
  then have f: "firstReply w (udpPolls s) 60 = Some 0"
    using firstReply_now [of w "udpPolls s" 59] by simp
  show ?thesis
    by (simp add: discoverServer_def improvedDiscoverServer_closed f discoveryTrace_def
        attemptTrace_def)
qed

lemma serverCheck_up:
  assumes "serverUp w" and "serverConnected s"
  shows "serverConnected (loopServerCheck w s) \<and> clock (loopServerCheck w s) = clock s"
proof -
  from assms(1) have u: "String_of (take 15 (udpRx w (udpPolls x))) \<noteq> []" for x :: sys
    by (simp add: serverUp_def)
  show ?thesis
    using assms(2) u
    by (simp add: loopServerCheck_def Let_def discover_up [OF u] millis_def)
qed

lemma toggle_up:
  assumes "serverUp w"
  shows "serverConnected (toggleAlertState w s) \<and> clock (toggleAlertState w s) = clock s"
proof -
  from assms have u: "String_of (take 15 (udpRx w (udpPolls x))) \<noteq> []" for x :: sys
    by (simp add: serverUp_def)
  from assms have c: "wifiStatus w n = WL_CONNECTED" for n
    by (simp add: serverUp_def)
  show ?thesis
    using u
    by (simp add: toggleAlertState_def sendAlert_def Let_def WiFi_status_def c
        discover_up [OF u] http_POST_def digitalWrite_led_def)
qed

lemma held_step:
  assumes up: "serverUp w" and held: "buttonHeld w" and s: "justFired s" and dt: "500 < dt"
  shows "justFired (loop w (idle dt s)) \<and> pressed 1 s (loop w (idle dt s))"
proof -
  define a where "a = idle dt s"
  define s1 where "s1 = loopIndicator w a"
  define s2 where "s2 = s1\<lparr>bootReads := Suc (bootReads s1), buttonPressStartTime := 0\<rparr>"
  define s3 where "s3 = loopServerCheck w (snd (WiFi_status w s2))"
  have a: "\<not> halted a" "configured (config a)" "serverConnected a"
    "clock a - lastDebounceTime a = dt" "trace a = trace s"
    using s by (simp_all add: a_def idle_def justFired_def)
  have q1: "quiet a s1"
    unfolding s1_def by (rule quiet_loopIndicator)
  have f1: "clock s1 = clock a" "serverConnected s1 = serverConnected a"
    by (simp_all add: s1_def loopIndicator_frame)
  have r2: "loopResetCheck w s1 = s2"
    using up by (simp add: loopResetCheck_def digitalRead_boot_def serverUp_def s2_def)
  from q1 have g2: "lastDebounceTime s2 = lastDebounceTime a" "halted s2 = halted a"
    "config s2 = config a"
    by (simp_all add: quiet_def s2_def)
  have p2: "pressed 0 a s2"
    using quiet_pressed [OF q1] by (simp add: pressed_def s2_def)
  have q3: "quiet s2 s3"
    unfolding s3_def by (intro quiet_trans [OF _ quiet_loopServerCheck] quiet_WiFi_status)
  have sc: "serverConnected (snd (WiFi_status w s2))" "clock (snd (WiFi_status w s2)) = clock a"
    using a(3) by (simp_all add: WiFi_status_def s2_def f1)
  from serverCheck_up [OF up sc(1)] sc(2)
  have f3: "serverConnected s3" "clock s3 = clock a"
    by (simp_all add: s3_def)
  from q3 have g3: "lastDebounceTime s3 = lastDebounceTime a" "halted s3 = halted a"
    "config s3 = config a"
    by (simp_all add: quiet_def g2)
  have fire: "serverConnected s3" "buttonPin w (buttonReads s3) = LOW"
    "clock s3 - lastDebounceTime s3 > debounceDelay"
    using held dt by (simp_all add: f3 g3 a(4) buttonHeld_def debounceDelay_def)
  define x where "x = s3\<lparr>buttonReads := Suc (buttonReads s3), lastDebounceTime := clock s3,
          trace := trace s3 @ [AlertButtonPressed]\<rparr>"
  have r4: "loopAlertButton w s3 = toggleAlertState w x"
    unfolding x_def by (rule loopAlertButton_fires [OF fire])
  have c: "calm x (toggleAlertState w x)"
    by (rule calm_toggleAlertState)
  from toggle_up [OF up, of x]
  have t: "serverConnected (toggleAlertState w x)" "clock (toggleAlertState w x) = clock s3"
    by (simp_all add: x_def)
  from c have k: "halted (toggleAlertState w x) = halted a"
    "config (toggleAlertState w x) = config a"
    "lastDebounceTime (toggleAlertState w x) = clock s3"
    by (simp_all add: calm_def x_def g3)
  have st: "fst (WiFi_status w s2) = WL_CONNECTED"
    using up by (simp add: WiFi_status_def serverUp_def)
  have rc: "loopConnectivity w s2 = toggleAlertState w x"
    using a(2) by (simp add: loopConnectivity_def Let_def split_beta g2 st s3_def [symmetric] r4)
  have rl: "loop w a = toggleAlertState w x"
    using a(1,2) k
    by (simp add: loop_def Let_def s1_def [symmetric] r2 rc loopPortal_frame(2) g2)
  have "pressed 1 s3 x"
    by (simp add: pressed_def x_def)
  from pressed_trans [OF pressed_trans [OF p2 quiet_pressed [OF q3]]
      pressed_trans [OF this calm_pressed [OF c]]]
  have "pressed 1 a (toggleAlertState w x)"
    by simp
  then have p: "pressed 1 s (loop w a)"
    by (simp add: rl pressed_def a(5))
  have "justFired (loop w a)"
    using a(1,2) by (simp add: justFired_def rl t k)
  with p show ?thesis
    by (simp add: a_def)
qed

lemma held_run:
  assumes "serverUp w" and "buttonHeld w"
  shows "justFired s \<Longrightarrow> \<forall>dt\<in>set dts. 500 < dt \<Longrightarrow>
     justFired (run w dts s) \<and> pressed (length dts) s (run w dts s)"
proof (induction dts arbitrary: s)
  case Nil
  then show ?case by (simp add: pressed_def)
next
  case (Cons dt dts)
  from Cons.prems have dt: "500 < dt" and rest: "\<forall>d\<in>set dts. 500 < d"
    by simp_all
  from held_step [OF assms Cons.prems(1) dt]
  have j: "justFired (loop w (idle dt s))" and p: "pressed 1 s (loop w (idle dt s))"
    by simp_all
  from Cons.IH [OF j rest]
  have "justFired (run w dts (loop w (idle dt s)))"
    "pressed (length dts) (loop w (idle dt s)) (run w dts (loop w (idle dt s)))"
    by simp_all
  with pressed_trans [OF p] show ?case
    by simp
qed

subsection \<open>Claim C3: the debounce of the alert button\<close>

text \<open>
  C3, as stated, has an event reported only when the level differs from the one last
  reported, so that a level that is held gives one event at most. The loop compares no
  levels: with the button read low at both of two iterations 600 ms apart, both report.
\<close>

theorem debounce_edge_counterexample:
  "buttonPin (online ''192.168.1.10'' 200) 0 = LOW \<and>
   buttonPin (online ''192.168.1.10'' 200) 1 = LOW \<and>
   buttonReads (run (online ''192.168.1.10'' 200) [600, 600]
      (setup_fw (online ''192.168.1.10'' 200) (labelled ''hall''))) = 2 \<and>
   presses (trace (run (online ''192.168.1.10'' 200) [600, 600]
      (setup_fw (online ''192.168.1.10'' 200) (labelled ''hall'')))) = 2"
  by code_simp

text \<open>
  C3, amended. The connectivity part of an iteration reports one button event if
  \<open>alertDue\<close> holds and none otherwise: the device is configured, \<open>WiFi.status()\<close> is
  connected, \<open>serverConnected\<close> is set once the periodic check of this iteration is done,
  the button reads low, and \<open>millis()\<close> is strictly more than \<open>debounceDelay\<close> (500 ms)
  past \<open>lastDebounceTime\<close>. A report stores \<open>millis()\<close> in \<open>lastDebounceTime\<close>, so two
  reports are more than 500 ms apart; without a report \<open>lastDebounceTime\<close> and
  \<open>alertState\<close> stay as they are.
\<close>

theorem debounce_is_level_gated:
  "presses (new_events s (loopConnectivity w s)) = (if alertDue w s then 1 else 0) \<and>
   (alertDue w s \<longrightarrow>
      debounceDelay < clock (loopServerCheck w (snd (WiFi_status w s))) - lastDebounceTime s \<and>
      lastDebounceTime (loopConnectivity w s) = clock (loopServerCheck w (snd (WiFi_status w s)))) \<and>
   (\<not> alertDue w s \<longrightarrow>
      lastDebounceTime (loopConnectivity w s) = lastDebounceTime s \<and>
      alertState (loopConnectivity w s) = alertState s)"
proof -
  from loopConnectivity_presses [of w s]
  have p: "pressed (if alertDue w s then 1 else 0) s (loopConnectivity w s)"
    and rest: "alertDue w s \<longrightarrow>
      lastDebounceTime (loopConnectivity w s) = clock (loopServerCheck w (snd (WiFi_status w s)))"
      "\<not> alertDue w s \<longrightarrow>
      lastDebounceTime (loopConnectivity w s) = lastDebounceTime s \<and>
      alertState (loopConnectivity w s) = alertState s"
    by blast+
  from pressed_new_events [OF p] rest show ?thesis
    by (simp add: alertDue_def)
qed

text \<open>The iteration 600 ms after start-up, button low: one report, stamped 700 ms.\<close>

lemma due_at_700:
  "alertDue (online ''192.168.1.10'' 200)
     (idle 600 (setup_fw (online ''192.168.1.10'' 200) (labelled ''hall''))) \<and>
   clock (loopServerCheck (online ''192.168.1.10'' 200)
     (snd (WiFi_status (online ''192.168.1.10'' 200)
        (idle 600 (setup_fw (online ''192.168.1.10'' 200) (labelled ''hall'')))))) = 700"
  by code_simp

theorem debounce_is_level_gated_witness:
  "presses (new_events (idle 600 (setup_fw (online ''192.168.1.10'' 200) (labelled ''hall'')))
      (loopConnectivity (online ''192.168.1.10'' 200)
         (idle 600 (setup_fw (online ''192.168.1.10'' 200) (labelled ''hall''))))) = 1 \<and>
   lastDebounceTime (loopConnectivity (online ''192.168.1.10'' 200)
      (idle 600 (setup_fw (online ''192.168.1.10'' 200) (labelled ''hall'')))) = 700"
  using debounce_is_level_gated [of "idle 600 (setup_fw (online ''192.168.1.10'' 200) (labelled ''hall''))"
      "online ''192.168.1.10'' 200"] due_at_700
  by simp

subsection \<open>Claim C10: the alert button is level-triggered\<close>

text \<open>
  C10. The alert check looks at the level of the button, not at an edge. In any world, an
  alert check that finds \<open>serverConnected\<close> set, the button low and \<open>millis()\<close> more than
  500 ms past the last report reports the button and calls \<open>toggleAlertState\<close>, whatever the
  button read before. So with the button held low, on a network where WiFi stays
  connected and discovery is answered, every iteration that comes more than 500 ms after
  the last report fires again: after \<open>n\<close> such iterations the button has been reported
  \<open>n\<close> times.
\<close>

theorem held_button_fires_repeatedly:
  "(serverConnected s \<and> buttonPin w (buttonReads s) = LOW \<and>
      debounceDelay < clock s - lastDebounceTime s \<longrightarrow>
      loopAlertButton w s =
        toggleAlertState w
          (s\<lparr>buttonReads := Suc (buttonReads s), lastDebounceTime := clock s,
             trace := trace s @ [AlertButtonPressed]\<rparr>) \<and>
      presses (new_events s (loopAlertButton w s)) = 1) \<and>
   (serverUp w \<and> buttonHeld w \<and> justFired s \<and> (\<forall>dt\<in>set dts. 500 < dt) \<longrightarrow>
      presses (new_events s (run w dts s)) = length dts \<and> justFired (run w dts s))"
proof -
  have 1: "loopAlertButton w s =
        toggleAlertState w
          (s\<lparr>buttonReads := Suc (buttonReads s), lastDebounceTime := clock s,
             trace := trace s @ [AlertButtonPressed]\<rparr>) \<and>
      presses (new_events s (loopAlertButton w s)) = 1"
    if "serverConnected s" "buttonPin w (buttonReads s) = LOW"
      "debounceDelay < clock s - lastDebounceTime s"
    using loopAlertButton_fires [OF that] loopAlertButton_pressed [OF that]
      pressed_new_events [of 1 s "loopAlertButton w s"]
    by simp
  have 2: "presses (new_events s (run w dts s)) = length dts \<and> justFired (run w dts s)"
    if "serverUp w" "buttonHeld w" "justFired s" "\<forall>dt\<in>set dts. 500 < dt"
    using held_run [OF that] pressed_new_events [of "length dts" s "run w dts s"]
    by simp
  from 1 2 show ?thesis
    by blast
qed

text \<open>Three iterations 501 ms apart with the button held: three more reports.\<close>

lemma online_up: "serverUp (online ''192.168.1.10'' 200) \<and> buttonHeld (online ''192.168.1.10'' 200)"
  by (simp add: serverUp_def buttonHeld_def online_def String_of_def NUL_def)

lemma fired_at_700:
  "justFired (run (online ''192.168.1.10'' 200) [600]
     (setup_fw (online ''192.168.1.10'' 200) (labelled ''hall'')))"
  by code_simp

theorem held_button_fires_repeatedly_witness:
  "presses (new_events
      (run (online ''192.168.1.10'' 200) [600]
         (setup_fw (online ''192.168.1.10'' 200) (labelled ''hall'')))
      (run (online ''192.168.1.10'' 200) [501, 501, 501]
         (run (online ''192.168.1.10'' 200) [600]
            (setup_fw (online ''192.168.1.10'' 200) (labelled ''hall''))))) = 3"
proof -
  have g: "\<forall>dt\<in>set [501, 501, 501 :: 32 word]. 500 < dt"
    by simp
  from held_button_fires_repeatedly
    [of "run (online ''192.168.1.10'' 200) [600]
           (setup_fw (online ''192.168.1.10'' 200) (labelled ''hall''))"
        "online ''192.168.1.10'' 200" "[501, 501, 501]"]
    online_up fired_at_700 g
  show ?thesis
    by simp
qed

subsection \<open>Claim C4: the indicator\<close>

text \<open>
  C4, as stated, makes the LED a function of the connectivity and \<open>alertState\<close>, blinking
  whenever WiFi is down. The LED follows the stored flag \<open>isBlinking\<close> instead: a device
  that is connected with the server up and then loses WiFi keeps its LED solid. Here WiFi
  is lost at every read of two iterations, 1000 ms and 6000 ms after start-up, and nothing
  is written to the LED.
\<close>

theorem indicator_pure_function_counterexample:
  "wifiPolls (setup_fw dropout (labelled ''hall'')) = 6 \<and>
   wifiStatus dropout 6 = WL_CONNECTION_LOST \<and> wifiStatus dropout 7 = WL_CONNECTION_LOST \<and>
   wifiStatus dropout 8 = WL_CONNECTION_LOST \<and> wifiStatus dropout 9 = WL_CONNECTION_LOST \<and>
   wifiPolls (run dropout [1000, 5000] (setup_fw dropout (labelled ''hall''))) = 10 \<and>
   configured (config (run dropout [1000, 5000] (setup_fw dropout (labelled ''hall'')))) \<and>
   \<not> isBlinking (run dropout [1000, 5000] (setup_fw dropout (labelled ''hall''))) \<and>
   new_events (setup_fw dropout (labelled ''hall''))
     (run dropout [1000, 5000] (setup_fw dropout (labelled ''hall''))) = []"
  by code_simp

text \<open>
  C4, amended. The indicator follows the flag \<open>isBlinking\<close>. While it is clear, the
  indicator part of an iteration leaves the LED as it is. While it is set, that part
  inverts the LED once \<open>millis()\<close> is more than the interval past the last inversion; the
  interval is 300 ms on a device that is not configured or whose WiFi is not connected,
  and 1000 ms on a configured device with WiFi connected and \<open>serverConnected\<close> clear.
  \<open>blinkLED(true)\<close> clears the flag and writes the level of \<open>alertState\<close> to the LED at
  once; the periodic check calls it when it finds the server of a device that was blinking
  for want of one.
\<close>

theorem indicator_follows_flag:
  "(\<not> isBlinking s \<longrightarrow> loopIndicator w s = s) \<and>
   (isBlinking s \<and> \<not> configured (config s) \<longrightarrow> loopIndicator w s = blinkStep 300 s) \<and>
   (isBlinking s \<and> configured (config s) \<and> wifiStatus w (wifiPolls s) \<noteq> WL_CONNECTED \<longrightarrow>
      loopIndicator w s = blinkStep 300 (s\<lparr>wifiPolls := Suc (wifiPolls s)\<rparr>)) \<and>
   (isBlinking s \<and> configured (config s) \<and> wifiStatus w (wifiPolls s) = WL_CONNECTED \<and>
      \<not> serverConnected s \<longrightarrow>
      loopIndicator w s = blinkStep 1000 (s\<lparr>wifiPolls := Suc (wifiPolls s)\<rparr>)) \<and>
   blinkLED True i s =
     s\<lparr>isBlinking := False, ledState := alertState s, ledPin := level_of (alertState s),
       trace := trace s @ [DigitalWrite (level_of (alertState s))]\<rparr> \<and>
   (\<not> serverConnected s \<and> isBlinking s \<and> serverConnected (loopServerCheck w s) \<longrightarrow>
      \<not> isBlinking (loopServerCheck w s) \<and> ledState (loopServerCheck w s) = alertState s \<and>
      ledPin (loopServerCheck w s) = level_of (alertState s))"
proof -
  have 1: "\<not> isBlinking s \<longrightarrow> loopIndicator w s = s"
    by (simp add: loopIndicator_def)
  have 2: "isBlinking s \<and> \<not> configured (config s) \<longrightarrow> loopIndicator w s = blinkStep 300 s"
    by (simp add: loopIndicator_def blinkLED_def blinkStep_def blinkInterval_def Let_def
        millis_def digitalWrite_led_def)
  have 3: "isBlinking s \<and> configured (config s) \<and> wifiStatus w (wifiPolls s) \<noteq> WL_CONNECTED \<longrightarrow>
      loopIndicator w s = blinkStep 300 (s\<lparr>wifiPolls := Suc (wifiPolls s)\<rparr>)"
    by (simp add: loopIndicator_def blinkLED_def blinkStep_def blinkInterval_def Let_def
        millis_def digitalWrite_led_def WiFi_status_def)
  have 4: "isBlinking s \<and> configured (config s) \<and> wifiStatus w (wifiPolls s) = WL_CONNECTED \<and>
      \<not> serverConnected s \<longrightarrow>
      loopIndicator w s = blinkStep 1000 (s\<lparr>wifiPolls := Suc (wifiPolls s)\<rparr>)"
    by (simp add: loopIndicator_def blinkLED_def blinkStep_def serverBlinkInterval_def Let_def
        millis_def digitalWrite_led_def WiFi_status_def)
  have 5: "blinkLED True i s =
     s\<lparr>isBlinking := False, ledState := alertState s, ledPin := level_of (alertState s),
       trace := trace s @ [DigitalWrite (level_of (alertState s))]\<rparr>"
    by (simp add: blinkLED_def Let_def digitalWrite_led_def)
  have 6: "\<not> serverConnected s \<and> isBlinking s \<and> serverConnected (loopServerCheck w s) \<longrightarrow>
      \<not> isBlinking (loopServerCheck w s) \<and> ledState (loopServerCheck w s) = alertState s \<and>
      ledPin (loopServerCheck w s) = level_of (alertState s)"
    by (simp add: loopServerCheck_def Let_def split_beta discoverServer_def
        improvedDiscoverServer_closed blinkLED_def digitalWrite_led_def
        split: option.splits)
  from 1 2 3 4 5 6 show ?thesis
    by blast
qed

text \<open>An unprovisioned device 301 ms after start-up: the LED goes on.\<close>

lemma unprovisioned_blinking:
  "isBlinking (idle 301 (setup_fw offline blank)) \<and>
   \<not> configured (config (idle 301 (setup_fw offline blank))) \<and>
   ledPin (blinkStep 300 (idle 301 (setup_fw offline blank))) = HIGH"
  by code_simp

theorem indicator_follows_flag_witness:
  "ledPin (loopIndicator offline (idle 301 (setup_fw offline blank))) = HIGH"
  using indicator_follows_flag [of "idle 301 (setup_fw offline blank)" offline]
    unprovisioned_blinking
  by simp

subsection \<open>Claim C8: the LED and the alert state\<close>

text \<open>
  C8 fails on the code. \<open>sendAlert\<close> sets \<open>serverConnected\<close> at line 226 without stopping
  the blinking, which the connect, the reconnect and the periodic check all do at that
  point. When WiFi is lost at the status read of \<open>sendAlert\<close>, the reconnect succeeds, the
  discovery inside the reconnect fails and the discovery of \<open>sendAlert\<close> itself succeeds,
  the toggle is committed with \<open>serverConnected\<close> and \<open>isBlinking\<close> both set. The next
  iteration, with no button pressed, inverts the LED: WiFi connected, server connected,
  alert on, LED off.
\<close>

theorem led_desync_after_reconnect:
  "wifiStatus flaky 7 = WL_DISCONNECTED \<and>
   presses (trace (run flaky [600] (setup_fw flaky (labelled ''hall'')))) = 1 \<and>
   committed (trace (run flaky [600] (setup_fw flaky (labelled ''hall'')))) \<and>
   serverConnected (run flaky [600] (setup_fw flaky (labelled ''hall''))) \<and>
   isBlinking (run flaky [600] (setup_fw flaky (labelled ''hall''))) \<and>
   ledPin (run flaky [600] (setup_fw flaky (labelled ''hall''))) = HIGH \<and>
   wifiStatus flaky (wifiPolls (run flaky [600, 400] (setup_fw flaky (labelled ''hall''))))
     = WL_CONNECTED \<and>
   \<not> halted (run flaky [600, 400] (setup_fw flaky (labelled ''hall''))) \<and>
   serverConnected (run flaky [600, 400] (setup_fw flaky (labelled ''hall''))) \<and>
   presses (trace (run flaky [600, 400] (setup_fw flaky (labelled ''hall'')))) = 1 \<and>
   alertState (run flaky [600, 400] (setup_fw flaky (labelled ''hall''))) \<and>
   \<not> ledState (run flaky [600, 400] (setup_fw flaky (labelled ''hall''))) \<and>
   ledPin (run flaky [600, 400] (setup_fw flaky (labelled ''hall''))) = LOW"
  by code_simp

end
